theory Spec2Isabelle
  imports Main "HOL-Library.Word" "HOL-Library.Sublist"
begin

section \<open>Common vocabulary\<close>

text \<open>
  Bytes are the elements of a \<open>Uint8Array\<close>. A JavaScript "binary string" (every code
  unit below 256) is a \<open>string\<close>: HOL characters are exactly the 256 byte values.
  \<open>String.prototype.startsWith\<close>, \<open>endsWith\<close> and \<open>includes\<close> (here \<open>str_includes\<close>) are \<open>prefix\<close>,
  \<open>suffix\<close> and \<open>sublist\<close> with the searched text as first argument.
\<close>

type_synonym byte = "8 word"
type_synonym bytes = "byte list"

definition startsWith :: "string \<Rightarrow> string \<Rightarrow> bool" where
  "startsWith s p = prefix p s"

definition endsWith :: "string \<Rightarrow> string \<Rightarrow> bool" where
  "endsWith s p = suffix p s"

definition str_includes :: "string \<Rightarrow> string \<Rightarrow> bool" where
  "str_includes s p = sublist p s"

text \<open>
  \<open>s.replace(pat, rep)\<close> with a string pattern: the first occurrence of \<open>pat\<close> is
  replaced, a string without the pattern is returned as it is. (The replacement texts of
  this program contain no \<open>$\<close>, so no replacement pattern is expanded.)
\<close>

fun js_replace_first :: "string \<Rightarrow> string \<Rightarrow> string \<Rightarrow> string" where
  "js_replace_first pat rep [] = (if pat = [] then rep else [])"
| "js_replace_first pat rep (c # cs) =
     (if prefix pat (c # cs) then rep @ drop (length pat) (c # cs)
      else c # js_replace_first pat rep cs)"

section \<open>The storage worker (src/unnamed/part_001)\<close>

subsection \<open>arrayBufferToBase64\<close>

text \<open>
  \<open>String.fromCharCode.apply(null, slice)\<close>: one code unit per byte of the slice.
  \<open>bytes.subarray(i, j)\<close> clamps both ends to the length of the array.
\<close>

definition fromCharCode :: "bytes \<Rightarrow> string" where
  "fromCharCode bs = map (\<lambda>b. char_of (unat b)) bs"

definition subarray :: "bytes \<Rightarrow> nat \<Rightarrow> nat \<Rightarrow> bytes" where
  "subarray bs i j = take (min j (length bs) - min i (length bs)) (drop (min i (length bs)) bs)"

definition chunkSize :: nat where
  "chunkSize = 0x8000"

text \<open>
  \<open>btoa\<close> is the platform's base64 encoder (RFC 4648 alphabet, \<open>=\<close> padding). It
  raises on a code unit above 255, which a \<open>string\<close> cannot hold.
\<close>

definition b64alphabet :: string where
  "b64alphabet = ''ABCDEFGHIJKLMNOPQRSTUVWXYZabcdefghijklmnopqrstuvwxyz0123456789+/''"

definition b64digit :: "nat \<Rightarrow> char" where
  "b64digit n = b64alphabet ! (n mod 64)"

fun btoa_codes :: "nat list \<Rightarrow> string" where
  "btoa_codes (a # b # c # rest) =
     [b64digit (a div 4), b64digit ((a mod 4) * 16 + b div 16),
      b64digit ((b mod 16) * 4 + c div 64), b64digit (c mod 64)] @ btoa_codes rest"
| "btoa_codes [a, b] =
     [b64digit (a div 4), b64digit ((a mod 4) * 16 + b div 16),
      b64digit ((b mod 16) * 4), CHR ''='']"
| "btoa_codes [a] = [b64digit (a div 4), b64digit ((a mod 4) * 16), CHR ''='', CHR ''='']"
| "btoa_codes [] = []"

definition btoa :: "string \<Rightarrow> string" where
  "btoa binary = btoa_codes (map of_char binary)"

text \<open>
  The loop \<open>for (let i = 0; i < bytes.length; i += chunkSize)\<close> of
  \<open>arrayBufferToBase64\<close>, with the accumulated \<open>binary\<close> string.
\<close>

function binary_loop :: "bytes \<Rightarrow> nat \<Rightarrow> string \<Rightarrow> string" where
  "binary_loop bs i binary =
     (if i < length bs
      then binary_loop bs (i + chunkSize)
             (binary @ fromCharCode (subarray bs i (i + chunkSize)))
      else binary)"
  by pat_completeness auto
termination
  by (relation "measure (\<lambda>(bs, i, binary). length bs - i)") (auto simp: chunkSize_def)

declare binary_loop.simps [simp del]

definition arrayBufferToBase64 :: "bytes \<Rightarrow> string" where
  "arrayBufferToBase64 arrayBuffer = btoa (binary_loop arrayBuffer 0 [])"

text \<open>The naive encoding: the whole buffer as one binary string, encoded once.\<close>

definition naiveBase64 :: "bytes \<Rightarrow> string" where
  "naiveBase64 arrayBuffer = btoa (fromCharCode arrayBuffer)"

subsection \<open>Requests, the bucket and the AI binding\<close>

text \<open>
  What the handlers read from a request: the method and path, the value of
  \<open>headers.get('Authorization')\<close> (\<open>None\<close> for \<open>null\<close>), the \<open>key\<close> query parameter,
  the size of the body blob, the parsed JSON body and the parsed form data (\<open>None\<close> when
  \<open>request.json()\<close> or \<open>request.formData()\<close> throws). Keys are strings.
\<close>

record json_body =
  j_prefix :: "string option"
  j_key :: "string option"
  j_transcriptionKey :: "string option"
  j_audioKey :: "string option"

record form_data =
  f_audio :: "bytes option"
  f_key :: "string option"

record request =
  r_method :: string
  r_pathname :: string
  r_authorization :: "string option"
  r_queryKey :: "string option"
  r_blobSize :: nat
  r_json :: "json_body option"
  r_formData :: "form_data option"

text \<open>
  The bindings \<open>env.GIST_RECORDINGS\<close> and \<open>env.AI\<close> are outside the program: each call
  either throws or returns. A stored object is seen through \<open>obj.json()\<close>, which throws
  on a malformed object; of a transcription object only \<open>text || ''\<close> is read.
\<close>

datatype r2_get_result = GetThrows | NotFound | BadJson | Stored string

datatype ai_result = AiThrows | AiText string

record list_entry =
  le_key :: string
  le_uploaded :: nat

record env =
  bucket_get :: "string \<Rightarrow> r2_get_result"
  bucket_put_throws :: "string \<Rightarrow> bool"
  bucket_list :: "string \<Rightarrow> list_entry list option"
  ai_whisper :: "string \<Rightarrow> ai_result"
  ai_bart :: "string \<Rightarrow> ai_result"

text \<open>A response is its status code, with the bucket operations the handler performed.\<close>

datatype r2_op = R2Put string | R2Get string | R2List string

record response =
  status :: nat
  ops :: "r2_op list"

definition respond :: "nat \<Rightarrow> r2_op list \<Rightarrow> response" where
  "respond code os = \<lparr>status = code, ops = os\<rparr>"

text \<open>JavaScript truthiness of a string-or-null value: \<open>null\<close> and \<open>''\<close> are falsy.\<close>

definition truthy :: "string option \<Rightarrow> bool" where
  "truthy v = (case v of None \<Rightarrow> False | Some s \<Rightarrow> s \<noteq> [])"

text \<open>The string behind a value already tested to be truthy.\<close>

definition str_of :: "string option \<Rightarrow> string" where
  "str_of v = (case v of None \<Rightarrow> [] | Some s \<Rightarrow> s)"

text \<open>The check \<open>!authHeader || !authHeader.startsWith('Bearer ')\<close> of every handler.\<close>

definition unauthorized :: "string option \<Rightarrow> bool" where
  "unauthorized authHeader =
     (\<not> truthy authHeader \<or> \<not> startsWith (str_of authHeader) ''Bearer '')"

text \<open>
  The header every caller in the extension sends: \<open>'Authorization': `Bearer ${userToken}`\<close>
  (\<open>uploadToR2\<close>, \<open>transcribeFromR2\<close>, \<open>summarizeTranscription\<close>).
\<close>

definition bearer_header :: "string \<Rightarrow> string" where
  "bearer_header userToken = ''Bearer '' @ userToken"

subsection \<open>Derived keys\<close>

text \<open>
  \<open>key.replace(/\.(wav|mp3|webm)$/, '-transcription.json')\<close>: the pattern is anchored at
  the end of the string, so it can only match the last four or five characters.
\<close>

definition replace_audio_ext :: "string \<Rightarrow> string" where
  "replace_audio_ext key =
     (if endsWith key ''.wav'' \<or> endsWith key ''.mp3''
        then take (length key - 4) key @ ''-transcription.json''
      else if endsWith key ''.webm''
        then take (length key - 5) key @ ''-transcription.json''
      else key)"

text \<open>\<open>finalTranscriptionKey.replace('-transcription.json', '-summary.json')\<close>.\<close>

definition summary_key_of :: "string \<Rightarrow> string" where
  "summary_key_of finalTranscriptionKey =
     js_replace_first ''-transcription.json'' ''-summary.json'' finalTranscriptionKey"

text \<open>
  \<open>text.trim()\<close> is empty when the text holds white space and line terminators only.
  A character of a \<open>string\<close> is a code unit below 256; of these, \<open>trim\<close> strips tab,
  line feed, vertical tab, form feed, carriage return, space and the no-break space.
\<close>

definition js_whitespace :: "char \<Rightarrow> bool" where
  "js_whitespace c =
     (c \<in> set [CHR 0x09, CHR 0x0A, CHR 0x0B, CHR 0x0C, CHR 0x0D, CHR '' '', CHR 0xA0])"

definition trim_empty :: "string \<Rightarrow> bool" where
  "trim_empty s = (filter (\<lambda>c. \<not> js_whitespace c) s = [])"

subsection \<open>The handlers\<close>

definition handleR2Upload :: "request \<Rightarrow> env \<Rightarrow> response" where
  "handleR2Upload req e =
     (if unauthorized (r_authorization req) then respond 401 []
      else if \<not> truthy (r_queryKey req) then respond 400 []
      else if r_blobSize req = 0 then respond 400 []
      else let key = str_of (r_queryKey req) in
        if bucket_put_throws e key then respond 500 [R2Put key]
        else respond 200 [R2Put key])"

text \<open>
  \<open>summaryFiles.sort((a, b) => new Date(b.uploaded) - new Date(a.uploaded))[0]\<close>: the
  sort is stable, so the first entry with the greatest upload time.
\<close>

definition latest_entry :: "list_entry \<Rightarrow> list_entry list \<Rightarrow> list_entry" where
  "latest_entry x xs = foldl (\<lambda>best y. if le_uploaded best < le_uploaded y then y else best) x xs"

definition handleR2List :: "request \<Rightarrow> env \<Rightarrow> response" where
  "handleR2List req e =
     (if unauthorized (r_authorization req) then respond 401 []
      else case r_json req of
        None \<Rightarrow> respond 500 []
      | Some body \<Rightarrow>
          if \<not> truthy (j_prefix body) then respond 400 []
          else let pfx = str_of (j_prefix body) in
            (case bucket_list e pfx of
               None \<Rightarrow> respond 500 [R2List pfx]
             | Some objects \<Rightarrow>
                 (case filter (\<lambda>obj. str_includes (le_key obj) ''summary''
                                      \<and> endsWith (le_key obj) ''.json'') objects of
                    [] \<Rightarrow> respond 404 [R2List pfx]
                  | x # xs \<Rightarrow>
                      (let latestSummary = latest_entry x xs;
                           os = [R2List pfx, R2Get (le_key latestSummary)] in
                       (case bucket_get e (le_key latestSummary) of
                          Stored summaryData \<Rightarrow> respond 200 os
                        | _ \<Rightarrow> respond 500 os)))))"

definition handleR2Get :: "request \<Rightarrow> env \<Rightarrow> response" where
  "handleR2Get req e =
     (if unauthorized (r_authorization req) then respond 401 []
      else case r_json req of
        None \<Rightarrow> respond 500 []
      | Some body \<Rightarrow>
          if \<not> truthy (j_key body) then respond 400 []
          else let key = str_of (j_key body) in
            (case bucket_get e key of
               GetThrows \<Rightarrow> respond 500 [R2Get key]
             | NotFound \<Rightarrow> respond 404 [R2Get key]
             | _ \<Rightarrow> respond 200 [R2Get key]))"

definition handleTranscribe :: "request \<Rightarrow> env \<Rightarrow> response" where
  "handleTranscribe req e =
     (if unauthorized (r_authorization req) then respond 401 []
      else case r_formData req of
        None \<Rightarrow> respond 500 []
      | Some formData \<Rightarrow>
          (case f_audio formData of
             None \<Rightarrow> respond 400 []
           | Some audioBuffer \<Rightarrow>
               if length audioBuffer > 25 * 1024 * 1024 then respond 500 []
               else (case ai_whisper e (arrayBufferToBase64 audioBuffer) of
                  AiThrows \<Rightarrow> respond 500 []
                | AiText transcriptionText \<Rightarrow>
                    if truthy (f_key formData)
                    then (let audioKey = str_of (f_key formData);
                              transcriptionKey = replace_audio_ext audioKey in
                      if bucket_put_throws e transcriptionKey
                      then respond 500 [R2Put transcriptionKey]
                      else respond 200 [R2Put transcriptionKey])
                    else respond 200 [])))"

definition handleGetTranscription :: "request \<Rightarrow> env \<Rightarrow> response" where
  "handleGetTranscription req e =
     (if unauthorized (r_authorization req) then respond 401 []
      else if \<not> truthy (r_queryKey req) then respond 400 []
      else let key = str_of (r_queryKey req);
               transcriptionKey = replace_audio_ext key in
        (case bucket_get e transcriptionKey of
           GetThrows \<Rightarrow> respond 500 [R2Get transcriptionKey]
         | NotFound \<Rightarrow> respond 404 [R2Get transcriptionKey]
         | BadJson \<Rightarrow> respond 500 [R2Get transcriptionKey]
         | Stored t \<Rightarrow> respond 200 [R2Get transcriptionKey]))"

definition handleSummarize :: "request \<Rightarrow> env \<Rightarrow> response" where
  "handleSummarize req e =
     (if unauthorized (r_authorization req) then respond 401 []
      else case r_json req of
        None \<Rightarrow> respond 500 []
      | Some body \<Rightarrow>
          let transcriptionKey = j_transcriptionKey body; audioKey = j_audioKey body in
          if \<not> truthy transcriptionKey \<and> \<not> truthy audioKey then respond 400 []
          else let finalTranscriptionKey =
                     (if truthy audioKey \<and> \<not> truthy transcriptionKey
                      then replace_audio_ext (str_of audioKey)
                      else str_of transcriptionKey) in
            (case bucket_get e finalTranscriptionKey of
               GetThrows \<Rightarrow> respond 500 [R2Get finalTranscriptionKey]
             | NotFound \<Rightarrow> respond 404 [R2Get finalTranscriptionKey]
             | BadJson \<Rightarrow> respond 500 [R2Get finalTranscriptionKey]
             | Stored transcriptionText \<Rightarrow>
                 if trim_empty transcriptionText then respond 400 [R2Get finalTranscriptionKey]
                 else (case ai_bart e transcriptionText of
                    AiThrows \<Rightarrow> respond 500 [R2Get finalTranscriptionKey]
                  | AiText summaryText \<Rightarrow>
                      (let summaryKey = summary_key_of finalTranscriptionKey;
                           os = [R2Get finalTranscriptionKey, R2Put summaryKey] in
                       if bucket_put_throws e summaryKey then respond 500 os
                       else respond 200 os))))"

text \<open>The router \<open>fetch\<close>: a preflight request is answered first, then the routes in order.\<close>

definition worker_fetch :: "request \<Rightarrow> env \<Rightarrow> response" where
  "worker_fetch req e =
     (if r_method req = ''OPTIONS'' then respond 200 []
      else if r_pathname req = ''/r2-upload'' \<and> r_method req = ''PUT'' then handleR2Upload req e
      else if r_pathname req = ''/api/transcribe'' \<and> r_method req = ''POST'' then handleTranscribe req e
      else if r_pathname req = ''/r2-list'' \<and> r_method req = ''POST'' then handleR2List req e
      else if r_pathname req = ''/r2-get'' \<and> r_method req = ''POST'' then handleR2Get req e
      else if r_pathname req = ''/api/transcription'' \<and> r_method req = ''GET''
        then handleGetTranscription req e
      else if r_pathname req = ''/api/summarize'' \<and> r_method req = ''POST'' then handleSummarize req e
      else respond 404 [])"

subsection \<open>A sample request and environment\<close>

text \<open>
  One recording as the extension names it, a bucket that holds a transcription under every
  key, and bindings that never throw; used to run the handlers on a concrete input.
\<close>

definition sample_key :: string where
  "sample_key = ''recordings/u1-s1/complete-recording-2024-01-01T10-00-00.000Z.webm''"

definition sample_env :: env where
  "sample_env = \<lparr>bucket_get = (\<lambda>k. Stored ''some words''), bucket_put_throws = (\<lambda>k. False),
     bucket_list = (\<lambda>p. Some []), ai_whisper = (\<lambda>a. AiText ''some words''),
     ai_bart = (\<lambda>t. AiText ''words'')\<rparr>"

definition sample_request :: "string option \<Rightarrow> request" where
  "sample_request auth = \<lparr>r_method = ''POST'', r_pathname = ''/api/summarize'',
     r_authorization = auth, r_queryKey = Some sample_key, r_blobSize = 3,
     r_json = Some \<lparr>j_prefix = Some ''summaries/'', j_key = Some sample_key,
                      j_transcriptionKey = None, j_audioKey = Some sample_key\<rparr>,
     r_formData = Some \<lparr>f_audio = Some [1, 2, 3], f_key = Some sample_key\<rparr>\<rparr>"

section \<open>The background script (src/unnamed/part_000)\<close>

subsection \<open>Configuration\<close>

definition MAX_RETRIES :: nat where
  "MAX_RETRIES = 3"

definition RETRY_DELAY_BASE :: nat where
  "RETRY_DELAY_BASE = 2000"

subsection \<open>The upload session and the port\<close>

text \<open>
  \<open>currentUploadSession.chunks\<close> is created by \<open>new Array(totalChunks)\<close>: an array of
  holes. A slot is \<open>None\<close> while it is a hole. Storing at an index beyond the length
  extends a JavaScript array with holes.
\<close>

record upload_session =
  us_size :: nat
  us_mimeType :: string
  us_timestamp :: string
  us_duration :: nat
  totalChunks :: nat
  receivedChunks :: nat
  chunks :: "bytes option list"
  inProgress :: bool

record init_upload =
  iu_size :: nat
  iu_mimeType :: string
  iu_timestamp :: string
  iu_duration :: nat
  iu_totalChunks :: nat

definition array_set :: "'a option list \<Rightarrow> nat \<Rightarrow> 'a \<Rightarrow> 'a option list" where
  "array_set xs i v =
     (if i < length xs then xs[i := Some v]
      else xs @ replicate (i - length xs) None @ [Some v])"

text \<open>
  \<open>new Blob(parts)\<close> concatenates the parts; a hole is read as \<open>undefined\<close> and
  contributes the text "undefined".
\<close>

definition blob_part :: "bytes option \<Rightarrow> bytes" where
  "blob_part p = (case p of Some b \<Rightarrow> b | None \<Rightarrow> map (\<lambda>c. of_nat (of_char c)) ''undefined'')"

definition blob_of :: "bytes option list \<Rightarrow> bytes" where
  "blob_of parts = concat (map blob_part parts)"

text \<open>
  The module variables \<open>audioPort\<close> (connected or \<open>null\<close>), \<open>currentUploadSession\<close> and
  \<open>uploadInProgressId\<close> (the text \<open>upload-<Date.now()>\<close>, kept as the clock value).
\<close>

record transfer_state =
  audioPort :: bool
  currentUploadSession :: "upload_session option"
  uploadInProgressId :: "nat option"

text \<open>
  What a handler does to the outside: a message posted on the port, or a call of
  \<open>uploadFromPortSession\<close>, which builds its Blob from the slots before its first
  suspension.
\<close>

datatype effect = PostInitAck | PostChunkAck nat | StartUpload bytes

definition handleInitUpload :: "init_upload \<Rightarrow> transfer_state \<Rightarrow> transfer_state \<times> effect list" where
  "handleInitUpload message s =
     (s\<lparr>currentUploadSession := Some
          \<lparr>us_size = iu_size message, us_mimeType = iu_mimeType message,
           us_timestamp = iu_timestamp message, us_duration = iu_duration message,
           totalChunks = iu_totalChunks message, receivedChunks = 0,
           chunks = replicate (iu_totalChunks message) None, inProgress = True\<rparr>\<rparr>,
      if audioPort s then [PostInitAck] else [])"

definition processPortUpload :: "nat \<Rightarrow> transfer_state \<Rightarrow> transfer_state \<times> effect list" where
  "processPortUpload now s =
     (case currentUploadSession s of
        None \<Rightarrow> (s, [])
      | Some u \<Rightarrow>
          if receivedChunks u \<noteq> totalChunks u then (s, [])
          else (s\<lparr>uploadInProgressId := Some now\<rparr>, [StartUpload (blob_of (chunks u))]))"

definition handleAudioChunk ::
  "nat \<Rightarrow> nat \<Rightarrow> bytes \<Rightarrow> transfer_state \<Rightarrow> transfer_state \<times> effect list" where
  "handleAudioChunk now chunkIndex chunk s =
     (case currentUploadSession s of
        None \<Rightarrow> (s, [])
      | Some u \<Rightarrow>
          (let u' = u\<lparr>chunks := array_set (chunks u) chunkIndex chunk,
                      receivedChunks := receivedChunks u + 1\<rparr>;
               s' = s\<lparr>currentUploadSession := Some u'\<rparr>;
               ack = (if audioPort s then [PostChunkAck chunkIndex] else [])
           in if receivedChunks u' = totalChunks u' \<and> \<not> audioPort s
              then (let (s'', es) = processPortUpload now s' in (s'', ack @ es))
              else (s', ack)))"

definition handleTransferComplete :: "nat \<Rightarrow> transfer_state \<Rightarrow> transfer_state \<times> effect list" where
  "handleTransferComplete now s =
     (if uploadInProgressId s = None then processPortUpload now s else (s, []))"

definition onDisconnect :: "nat \<Rightarrow> transfer_state \<Rightarrow> transfer_state \<times> effect list" where
  "onDisconnect now s =
     (let s' = s\<lparr>audioPort := False\<rparr> in
      case currentUploadSession s' of
        None \<Rightarrow> (s', [])
      | Some u \<Rightarrow>
          if length (chunks u) > 0 \<and> receivedChunks u = totalChunks u
             \<and> uploadInProgressId s' = None
          then processPortUpload now s'
          else (s', []))"

definition onConnect :: "transfer_state \<Rightarrow> transfer_state \<times> effect list" where
  "onConnect s = (s\<lparr>audioPort := True\<rparr>, [])"

text \<open>
  When the promise of \<open>uploadFromPortSession\<close> settles, the function has set
  \<open>currentUploadSession = null\<close> (on both of its exits) and the \<open>catch\<close>/\<open>finally\<close>
  handlers of \<open>processPortUpload\<close> set \<open>uploadInProgressId = null\<close>.
\<close>

definition uploadSettled :: "transfer_state \<Rightarrow> transfer_state \<times> effect list" where
  "uploadSettled s = (s\<lparr>currentUploadSession := None, uploadInProgressId := None\<rparr>, [])"

text \<open>
  The events the background script handles one at a time, each with the clock value at
  which it is handled, and a run of the script over a list of events.
\<close>

datatype port_event =
    EvConnect
  | EvInit init_upload
  | EvChunk nat bytes
  | EvTransferComplete
  | EvDisconnect
  | EvUploadSettled

fun step :: "nat \<times> port_event \<Rightarrow> transfer_state \<Rightarrow> transfer_state \<times> effect list" where
  "step (now, EvConnect) s = onConnect s"
| "step (now, EvInit message) s = handleInitUpload message s"
| "step (now, EvChunk chunkIndex chunk) s = handleAudioChunk now chunkIndex chunk s"
| "step (now, EvTransferComplete) s = handleTransferComplete now s"
| "step (now, EvDisconnect) s = onDisconnect now s"
| "step (now, EvUploadSettled) s = uploadSettled s"

fun run :: "(nat \<times> port_event) list \<Rightarrow> transfer_state \<Rightarrow> transfer_state \<times> effect list" where
  "run [] s = (s, [])"
| "run (ev # evs) s =
     (let (s', es) = step ev s; (s'', es') = run evs s' in (s'', es @ es'))"

fun uploads :: "effect list \<Rightarrow> bytes list" where
  "uploads [] = []"
| "uploads (StartUpload b # es) = b # uploads es"
| "uploads (e # es) = uploads es"

fun is_init :: "nat \<times> port_event \<Rightarrow> bool" where
  "is_init (now, EvInit message) = True"
| "is_init ev = False"

definition same_session :: "(nat \<times> port_event) list \<Rightarrow> bool" where
  "same_session evs = (filter is_init evs = [])"

text \<open>
  The chunk messages of one transfer in the order of their delivery, each with its index
  and its bytes (an index may be delivered more than once, with any bytes); and a
  transfer: the init message, the chunk messages and \<open>transfer_complete\<close>.
\<close>

definition deliveries :: "(nat \<times> bytes) list \<Rightarrow> (nat \<times> port_event) list" where
  "deliveries ds = map (\<lambda>(chunkIndex, chunk). (0, EvChunk chunkIndex chunk)) ds"

definition transfer :: "init_upload \<Rightarrow> (nat \<times> bytes) list \<Rightarrow> (nat \<times> port_event) list" where
  "transfer message ds = (0, EvInit message) # deliveries ds @ [(0, EvTransferComplete)]"

text \<open>
  The chunk messages for the chunks \<open>cs\<close> of a recording, sent in the order \<open>order\<close> of
  their indices: the message with index \<open>i\<close> carries \<open>cs ! i\<close>.
\<close>

definition chunk_messages :: "bytes list \<Rightarrow> nat list \<Rightarrow> (nat \<times> bytes) list" where
  "chunk_messages cs order = map (\<lambda>i. (i, cs ! i)) order"

text \<open>The script before any session, with the port gone and with the port connected.\<close>

definition idle :: transfer_state where
  "idle = \<lparr>audioPort = False, currentUploadSession = None, uploadInProgressId = None\<rparr>"

definition connected :: transfer_state where
  "connected = \<lparr>audioPort = True, currentUploadSession = None, uploadInProgressId = None\<rparr>"

definition sample_init :: "nat \<Rightarrow> init_upload" where
  "sample_init n = \<lparr>iu_size = n, iu_mimeType = ''audio/webm'',
     iu_timestamp = ''2024-01-01T10:00:00.000Z'', iu_duration = 1, iu_totalChunks = n\<rparr>"

text \<open>
  A state in which the session is gone, or has reached its total while the upload guard is
  held: the state right after an upload has been started.
\<close>

definition spent :: "transfer_state \<Rightarrow> bool" where
  "spent s =
     (case currentUploadSession s of
        None \<Rightarrow> True
      | Some u \<Rightarrow> totalChunks u \<le> receivedChunks u \<and> uploadInProgressId s \<noteq> None)"

text \<open>The slots after storing the chunk messages \<open>ds\<close>, one after the other.\<close>

definition store_all :: "bytes option list \<Rightarrow> (nat \<times> bytes) list \<Rightarrow> bytes option list" where
  "store_all xs ds = foldl (\<lambda>ys (chunkIndex, chunk). array_set ys chunkIndex chunk) xs ds"

text \<open>A completed two-chunk session, one that lacks its last chunk, and later events.\<close>

definition sample_session :: "nat \<Rightarrow> bytes option list \<Rightarrow> upload_session" where
  "sample_session received slots = \<lparr>us_size = 2, us_mimeType = ''audio/webm'',
     us_timestamp = ''2024-01-01T10:00:00.000Z'', us_duration = 1, totalChunks = 2,
     receivedChunks = received, chunks = slots, inProgress = True\<rparr>"

definition later_events :: "(nat \<times> port_event) list" where
  "later_events = [(5, EvTransferComplete), (6, EvDisconnect), (7, EvChunk 0 [1]),
     (8, EvUploadSettled), (9, EvTransferComplete), (10, EvConnect), (11, EvDisconnect)]"

text \<open>
  Two sessions one after the other: the second is transferred while the upload of the
  first is in progress.
\<close>

definition two_sessions :: "(nat \<times> port_event) list" where
  "two_sessions =
     [(0, EvConnect), (1, EvInit (sample_init 1)), (2, EvChunk 0 [7]), (3, EvTransferComplete),
      (4, EvInit (sample_init 2)), (5, EvChunk 0 [1]), (6, EvChunk 1 [2]),
      (7, EvTransferComplete), (8, EvDisconnect), (9, EvUploadSettled),
      (10, EvTransferComplete), (11, EvDisconnect)]"

subsection \<open>uploadFromPortSession\<close>

text \<open>
  \<open>prepareR2UploadMetadata\<close> reads the stored user and session ids; it throws when no
  token is stored. Colons of the timestamp are replaced by dashes.
\<close>

record stored_ids =
  userId :: "string option"
  userToken :: "string option"
  lastSessionId :: "string option"
  currentSessionId :: "string option"

definition first_truthy :: "string option list \<Rightarrow> string \<Rightarrow> string" where
  "first_truthy vs dflt = (case filter truthy vs of [] \<Rightarrow> dflt | v # _ \<Rightarrow> str_of v)"

definition prepareR2UploadMetadata ::
  "upload_session \<Rightarrow> stored_ids \<Rightarrow> string option \<Rightarrow> string + string" where
  "prepareR2UploadMetadata u st sessionId =
     (let formattedTimestamp = map (\<lambda>c. if c = CHR '':'' then CHR ''-'' else c) (us_timestamp u);
          fileExtension = (if us_mimeType u = ''audio/wav'' then ''wav'' else ''webm'')
      in if \<not> truthy (userToken st) then Inl ''No authentication token available''
         else let effectiveSessionId =
                    first_truthy [currentSessionId st, sessionId, lastSessionId st] ''unknown''
              in Inr (''recordings/'' @ first_truthy [userId st] ''anonymous'' @ ''-''
                      @ effectiveSessionId @ ''/complete-recording-'' @ formattedTimestamp
                      @ ''.'' @ fileExtension))"

text \<open>
  What the upload does to the outside, in order: a call of \<open>uploadToR2\<close> (numbered by
  the value of \<open>retryCount\<close> at the call), a wait of so many milliseconds, a desktop
  notification, a runtime message to the listeners, and the timer that starts the
  transcription.
\<close>

datatype runtime_message = RECORDING_UPLOAD_COMPLETE string | RECORDING_WARNING string

datatype upload_effect =
    CallUploadToR2 nat
  | Wait nat
  | Notification string
  | SendMessage runtime_message
  | TranscribeAfter nat string

definition on_success :: "string \<Rightarrow> upload_effect list" where
  "on_success key =
     [Notification ''Recording Upload Complete'', SendMessage (RECORDING_UPLOAD_COMPLETE key),
      Notification ''DEBUG: Transcription Starting'', TranscribeAfter 2000 key]"

text \<open>
  The loop \<open>while (retryCount < MAX_RETRIES && !uploadSuccess)\<close>. The outcome of the
  call of \<open>uploadToR2\<close> made at \<open>retryCount = k\<close> is \<open>uploadToR2 k\<close>: \<open>None\<close> when it
  returns, the message of the error when it throws. The warning prints \<open>MAX_RETRIES\<close>,
  which is 3.
\<close>

function retry_loop ::
  "string \<Rightarrow> (nat \<Rightarrow> string option) \<Rightarrow> nat \<Rightarrow> bool \<Rightarrow> upload_effect list \<Rightarrow> upload_effect list" where
  "retry_loop key uploadToR2 retryCount uploadSuccess trace =
     (if retryCount < MAX_RETRIES \<and> \<not> uploadSuccess
      then (case uploadToR2 retryCount of
              None \<Rightarrow>
                retry_loop key uploadToR2 retryCount True
                  (trace @ CallUploadToR2 retryCount # on_success key)
            | Some message \<Rightarrow>
                if retryCount + 1 \<ge> MAX_RETRIES
                then retry_loop key uploadToR2 (retryCount + 1) False
                       (trace @ [CallUploadToR2 retryCount,
                          SendMessage (RECORDING_WARNING
                            (''Upload failed after 3 attempts: '' @ message))])
                else retry_loop key uploadToR2 (retryCount + 1) False
                       (trace @ [CallUploadToR2 retryCount,
                          Wait (2 ^ (retryCount + 1) * RETRY_DELAY_BASE)]))
      else trace)"
  by pat_completeness auto
termination
  by (relation "measure (\<lambda>(key, up, retryCount, uploadSuccess, trace).
        2 * (MAX_RETRIES - retryCount) + (if uploadSuccess then 0 else 1))") auto

declare retry_loop.simps [simp del]

text \<open>
  \<open>uploadFromPortSession\<close>: the result is \<open>Inl\<close> when the function throws (the metadata
  could not be prepared) and \<open>Inr ()\<close> when it returns, which it also does after the last
  failed attempt. On both exits \<open>currentUploadSession\<close> is set to \<open>null\<close>.
\<close>

definition uploadFromPortSession ::
  "stored_ids \<Rightarrow> string option \<Rightarrow> (nat \<Rightarrow> string option) \<Rightarrow> upload_session \<Rightarrow> transfer_state
     \<Rightarrow> (string + unit) \<times> upload_effect list \<times> transfer_state" where
  "uploadFromPortSession st sessionId uploadToR2 u s =
     (case prepareR2UploadMetadata u st sessionId of
        Inl message \<Rightarrow> (Inl message, [], s\<lparr>currentUploadSession := None\<rparr>)
      | Inr key \<Rightarrow>
          (Inr (), retry_loop key uploadToR2 0 False [], s\<lparr>currentUploadSession := None\<rparr>))"

text \<open>
  The promise chain of \<open>processPortUpload\<close>: \<open>uploadFromPortSession().catch(..).finally(..)\<close>,
  both handlers resetting \<open>uploadInProgressId\<close>.
\<close>

definition portUploadSettled ::
  "stored_ids \<Rightarrow> string option \<Rightarrow> (nat \<Rightarrow> string option) \<Rightarrow> upload_session \<Rightarrow> transfer_state
     \<Rightarrow> (string + unit) \<times> upload_effect list \<times> transfer_state" where
  "portUploadSettled st sessionId uploadToR2 u s =
     (case uploadFromPortSession st sessionId uploadToR2 u s of
        (Inl message, trace, s') \<Rightarrow> (Inl message, trace, s'\<lparr>uploadInProgressId := None\<rparr>)
      | (Inr done, trace, s') \<Rightarrow> (Inr done, trace, s'\<lparr>uploadInProgressId := None\<rparr>))"

fun attempts :: "upload_effect list \<Rightarrow> nat" where
  "attempts [] = 0"
| "attempts (CallUploadToR2 k # es) = Suc (attempts es)"
| "attempts (e # es) = attempts es"

fun waits :: "upload_effect list \<Rightarrow> nat list" where
  "waits [] = []"
| "waits (Wait d # es) = d # waits es"
| "waits (e # es) = waits es"




subsection \<open>The offscreen document\<close>

text \<open>
  The module variables \<open>offscreenCreated\<close> and \<open>isOffscreenInitialized\<close>. The browser
  is outside the program: what it answers to each call is given by an environment, and
  what the script asks of it is recorded as a list of effects.
\<close>

record host_state =
  offscreenCreated :: bool
  isOffscreenInitialized :: bool

datatype host_effect =
    GetContexts
  | StopMessage
  | CloseDocument
  | CreateDocument
  | Delay nat
  | ListenReady nat
  | PingOffscreen nat
  | StartMessage
  | SummaryPolling "string option"
  | LargeUploadAfter nat

text \<open>
  \<open>closeOffscreenDocument\<close>, given whether a document exists (\<open>hasOffscreenDocument\<close>
  swallows its own errors) and whether \<open>chrome.offscreen.closeDocument()\<close> throws. It
  never throws itself, and resets both flags on every path.
\<close>

definition closeOffscreenDocument ::
  "bool \<Rightarrow> bool \<Rightarrow> 'a host_state_scheme \<Rightarrow> 'a host_state_scheme \<times> host_effect list" where
  "closeOffscreenDocument documentExists closeThrows s =
     (let s' = s\<lparr>offscreenCreated := False, isOffscreenInitialized := False\<rparr> in
      if \<not> documentExists then (s', [GetContexts])
      else if closeThrows
        then (s', [GetContexts, StopMessage, Delay 500, CloseDocument, Delay 1000])
      else (s', [GetContexts, StopMessage, Delay 500, CloseDocument, Delay 500, Delay 500]))"

text \<open>
  The \<open>OFFSCREEN_DOCUMENT_READY\<close> branch of the message listener, which runs whenever
  the document broadcasts that it is ready, also while a function of the script waits.
\<close>

definition on_OFFSCREEN_DOCUMENT_READY :: "'a host_state_scheme \<Rightarrow> 'a host_state_scheme" where
  "on_OFFSCREEN_DOCUMENT_READY s = s\<lparr>isOffscreenInitialized := True, offscreenCreated := True\<rparr>"

text \<open>
  What happens outside during one attempt of \<open>ensureOffscreenDocument\<close>: the two
  answers used by \<open>closeOffscreenDocument\<close>; the error message when
  \<open>createDocument\<close> throws; whether the message listener handles a ready broadcast
  between the reset of the flags by \<open>closeOffscreenDocument\<close> and the end of the attempt
  (the document broadcasts when it has loaded and once more a second later, during the
  wait of 3000 ms and before the function listens itself); the time, in milliseconds after
  the function's own listener is registered, at which a ready broadcast arrives; and the
  time at which the ping callback runs, with whether the response carries \<open>pong\<close>.
\<close>

record attempt_env =
  documentExists :: bool
  closeThrows :: bool
  createError :: "string option"
  readyHeard :: bool
  readyAfter :: "nat option"
  pingAfter :: "(nat \<times> bool) option"

text \<open>
  The two promises, as the time at which each settles and the value it settles with: the
  listener gives up after 5000 ms, the ping after 3000 ms. \<open>Promise.race\<close> takes the one
  that settles first (here the first of the array when both are given the same time).
\<close>

definition readyPromise :: "nat option \<Rightarrow> nat \<times> bool" where
  "readyPromise arrival =
     (case arrival of
        Some t \<Rightarrow> if t < 5000 then (t, True) else (5000, False)
      | None \<Rightarrow> (5000, False))"

definition pingPromise :: "(nat \<times> bool) option \<Rightarrow> nat \<times> bool" where
  "pingPromise answer =
     (case answer of
        Some (t, pong) \<Rightarrow> if t < 3000 then (t, pong) else (3000, False)
      | None \<Rightarrow> (3000, False))"

definition promise_race :: "nat \<times> bool \<Rightarrow> nat \<times> bool \<Rightarrow> nat \<times> bool" where
  "promise_race p q = (if fst p \<le> fst q then p else q)"

definition documentReady :: "attempt_env \<Rightarrow> bool" where
  "documentReady e = snd (promise_race (readyPromise (readyAfter e)) (pingPromise (pingAfter e)))"

text \<open>
  One pass through the body of \<open>for (let attempt = 1; attempt <= 3; attempt++)\<close>: the
  function returns \<open>true\<close>, goes on to the next attempt, or throws.
\<close>

datatype attempt_result = ReturnTrue | NextAttempt | Throw string

definition attempt_once ::
  "attempt_env \<Rightarrow> nat \<Rightarrow> 'a host_state_scheme
     \<Rightarrow> attempt_result \<times> 'a host_state_scheme \<times> host_effect list" where
  "attempt_once e attempt s =
     (let (s0, closing) = closeOffscreenDocument (documentExists e) (closeThrows e) s;
          s1 = (if readyHeard e then on_OFFSCREEN_DOCUMENT_READY s0 else s0);
          before = closing @ [Delay 1000, CreateDocument]
      in case createError e of
           None \<Rightarrow>
             (let s2 = s1\<lparr>offscreenCreated := True\<rparr>;
                  waiting = before @ [Delay 3000, ListenReady 5000, PingOffscreen 3000]
              in if documentReady e
                 then (ReturnTrue, s2\<lparr>isOffscreenInitialized := True\<rparr>, waiting)
                 else (NextAttempt, s2, waiting))
         | Some message \<Rightarrow>
             if str_includes message ''Only a single offscreen document''
             then (NextAttempt, s1, before @ [CloseDocument, Delay 2000])
             else if attempt = 3 then (Throw message, s1, before)
             else (NextAttempt, s1, before @ [Delay 2000]))"

function ensure_loop ::
  "(nat \<Rightarrow> attempt_env) \<Rightarrow> nat \<Rightarrow> 'a host_state_scheme \<Rightarrow> host_effect list
     \<Rightarrow> (string + bool) \<times> 'a host_state_scheme \<times> host_effect list" where
  "ensure_loop env attempt s trace =
     (if attempt \<le> 3
      then (case attempt_once (env attempt) attempt s of
              (ReturnTrue, s', es) \<Rightarrow> (Inr True, s', trace @ es)
            | (NextAttempt, s', es) \<Rightarrow> ensure_loop env (attempt + 1) s' (trace @ es)
            | (Throw message, s', es) \<Rightarrow>
                (Inl (''Could not create offscreen document: '' @ message), s', trace @ es))
      else (Inr False, s, trace))"
  by pat_completeness auto
termination
  by (relation "measure (\<lambda>(env, attempt, s, trace). 4 - attempt)") auto

declare ensure_loop.simps [simp del]

definition ensureOffscreenDocument ::
  "(nat \<Rightarrow> attempt_env) \<Rightarrow> 'a host_state_scheme
     \<Rightarrow> (string + bool) \<times> 'a host_state_scheme \<times> host_effect list" where
  "ensureOffscreenDocument env s = ensure_loop env 1 s []"

fun creations :: "host_effect list \<Rightarrow> nat" where
  "creations [] = 0"
| "creations (CreateDocument # es) = Suc (creations es)"
| "creations (e # es) = creations es"

text \<open>
  The effects of the attempts \<open>1, \<dots>, n\<close>, one after the other (what an attempt asks
  of the browser does not depend on the two flags).
\<close>

fun attempts_trace :: "(nat \<Rightarrow> attempt_env) \<Rightarrow> nat \<Rightarrow> 'a host_state_scheme \<Rightarrow> host_effect list" where
  "attempts_trace env 0 s = []"
| "attempts_trace env (Suc n) s =
     attempts_trace env n s
       @ snd (snd (attempt_once (env (Suc n)) (Suc n) s))"

text \<open>
  Sample attempts: a document that never answers; one whose broadcasts reach only the
  message listener; one that answers the ping; one whose broadcast reaches the function's
  listener; and a browser that reports a second document.
\<close>

definition never_ready :: attempt_env where
  "never_ready = \<lparr>documentExists = False, closeThrows = False, createError = None,
     readyHeard = False, readyAfter = None, pingAfter = None\<rparr>"

definition heard_too_early :: attempt_env where
  "heard_too_early = \<lparr>documentExists = False, closeThrows = False, createError = None,
     readyHeard = True, readyAfter = None, pingAfter = None\<rparr>"

definition answers_ping :: attempt_env where
  "answers_ping = \<lparr>documentExists = False, closeThrows = False, createError = None,
     readyHeard = True, readyAfter = None, pingAfter = Some (200, True)\<rparr>"

definition broadcasts_ready :: attempt_env where
  "broadcasts_ready = \<lparr>documentExists = False, closeThrows = False, createError = None,
     readyHeard = True, readyAfter = Some 100, pingAfter = Some (100, False)\<rparr>"

definition single_document :: attempt_env where
  "single_document = \<lparr>documentExists = True, closeThrows = True,
     createError = Some ''Only a single offscreen document may be created.'',
     readyHeard = False, readyAfter = None, pingAfter = None\<rparr>"

definition ready_on_second :: "nat \<Rightarrow> attempt_env" where
  "ready_on_second k = (if k = 2 then answers_ping else never_ready)"

definition no_host :: host_state where
  "no_host = \<lparr>offscreenCreated = False, isOffscreenInitialized = False\<rparr>"

subsection \<open>Stopping a recording\<close>

text \<open>
  \<open>chrome.storage.local\<close> is a map from keys to JSON values; \<open>set\<close> writes the given
  keys and leaves the others. Its calls are taken not to fail.
\<close>

datatype jsval = JNull | JBool bool | JNum nat | JStr string | JObj "(string \<times> jsval) list"

type_synonym local_storage = "string \<Rightarrow> jsval option"

definition storage_set :: "(string \<times> jsval) list \<Rightarrow> local_storage \<Rightarrow> local_storage" where
  "storage_set items m = foldl (\<lambda>m' (k, v). m'(k \<mapsto> v)) m items"





record tab_info =
  tab_id :: nat
  tab_title :: string
  tab_url :: string


text \<open>
  The module variables of the recorder, with the two flags of the offscreen document, and
  the durable storage.
\<close>

record recorder_state = host_state +
  isRecording :: bool
  sessionId :: "string option"
  currentTabInfo :: "tab_info option"
  uploadInProgress :: bool
  storage :: local_storage














subsection \<open>Starting a recording\<close>

text \<open>
  The \<open>START_RECORDING\<close> and \<open>STOP_RECORDING\<close> branches of the message listener, with
  the module variables \<open>currentRecordingTask\<close> (the pending promise, named by the number
  of the call of \<open>handleStartRecording\<close> that made it) and \<open>recordingLock\<close>.

  A call of \<open>handleStartRecording\<close> checks the lock, then suspends at
  \<open>await chrome.storage.local.set({ recordingLock: true })\<close>; only when that resumes
  does it set \<open>recordingLock = true\<close> and run the start sequence (closing and creating
  the offscreen document, asking it to record). The sequence ends with an outcome; its
  \<open>finally\<close> block releases the lock, and the handlers attached to the promise clear
  \<open>currentRecordingTask\<close> and answer every request that waits for the promise.
\<close>

datatype start_outcome = Started | StartFailed string

datatype start_response = StartedResponse | ErrorResponse string

datatype phase = AwaitingLockStore | InSequence

record start_state =
  currentRecordingTask :: "nat option"
  recordingLock :: bool
  running :: "(nat \<times> phase) list"
  waiting :: "(nat \<times> nat) list"
  responses :: "(nat \<times> start_response) list"
  calls :: nat

datatype start_event =
    START_RECORDING nat
  | STOP_RECORDING
  | LockStored nat
  | SequenceEnds nat start_outcome

definition response_of :: "start_outcome \<Rightarrow> start_response" where
  "response_of outcome =
     (case outcome of Started \<Rightarrow> StartedResponse | StartFailed message \<Rightarrow> ErrorResponse message)"

fun start_step :: "start_event \<Rightarrow> start_state \<Rightarrow> start_state" where
  "start_step (START_RECORDING request) s =
     (case currentRecordingTask s of
        Some task \<Rightarrow> s\<lparr>waiting := waiting s @ [(request, task)]\<rparr>
      | None \<Rightarrow>
          if recordingLock s
          then s\<lparr>responses := responses s
                  @ [(request, ErrorResponse ''Recording start already in progress, please wait'')],
                 calls := calls s + 1\<rparr>
          else s\<lparr>currentRecordingTask := Some (calls s),
                 running := running s @ [(calls s, AwaitingLockStore)],
                 waiting := waiting s @ [(request, calls s)],
                 calls := calls s + 1\<rparr>)"
| "start_step STOP_RECORDING s = s\<lparr>currentRecordingTask := None\<rparr>"
| "start_step (LockStored task) s =
     (if (task, AwaitingLockStore) \<in> set (running s)
      then s\<lparr>recordingLock := True,
             running := map (\<lambda>(t, p). if t = task then (t, InSequence) else (t, p)) (running s)\<rparr>
      else s)"
| "start_step (SequenceEnds task outcome) s =
     (if (task, InSequence) \<in> set (running s)
      then s\<lparr>recordingLock := False,
             running := filter (\<lambda>(t, p). t \<noteq> task) (running s),
             currentRecordingTask := None,
             responses := responses s
               @ map (\<lambda>(request, t). (request, response_of outcome))
                   (filter (\<lambda>(request, t). t = task) (waiting s)),
             waiting := filter (\<lambda>(request, t). t \<noteq> task) (waiting s)\<rparr>
      else s)"

definition start_run :: "start_event list \<Rightarrow> start_state \<Rightarrow> start_state" where
  "start_run evs s = foldl (\<lambda>s' ev. start_step ev s') s evs"

definition start_initial :: start_state where
  "start_initial = \<lparr>currentRecordingTask = None, recordingLock = False, running = [],
     waiting = [], responses = [], calls = 0\<rparr>"

subsection \<open>Export to OneNote\<close>

text \<open>
  The \<open>EXPORT_TO_ONENOTE\<close> branch of the message listener, up to the first request to
  the OneNote API. \<open>processedRequestIds\<close> is a \<open>Set\<close>, kept as the list of its elements
  in insertion order.
\<close>

record export_request =
  requestId :: "string option"
  accessToken :: "string option"
  content :: "string option"

datatype export_outcome = ExportResponse bool string | FetchNotebooks

definition keep_last_20 :: "string list \<Rightarrow> string list" where
  "keep_last_20 ids = (if length ids > 20 then drop (length ids - 20) ids else ids)"

definition export_branch ::
  "bool \<times> string list \<Rightarrow> export_request \<Rightarrow> (bool \<times> string list) \<times> export_outcome" where
  "export_branch vars request =
     (let (oneNoteExportInProgress, processedRequestIds) = vars in
      if truthy (requestId request) \<and> str_of (requestId request) \<in> set processedRequestIds
        then (vars, ExportResponse False ''Request already processed'')
      else if oneNoteExportInProgress
        then (vars, ExportResponse False ''Export already in progress'')
      else
        let ids = (if truthy (requestId request)
                   then keep_last_20 (processedRequestIds @ [str_of (requestId request)])
                   else processedRequestIds)
        in if \<not> truthy (accessToken request)
             then ((False, ids), ExportResponse False ''No access token provided'')
           else if \<not> truthy (content request)
             then ((False, ids), ExportResponse False ''No content provided'')
           else ((True, ids), FetchNotebooks))"

text \<open>
  The two variables are declared with \<open>let\<close> inside the listener function, before the
  branch: every message finds \<open>oneNoteExportInProgress = false\<close> and an empty set, and
  what the branch writes is visible to the callbacks of that one invocation only.
\<close>

definition onMessage_EXPORT_TO_ONENOTE :: "export_request \<Rightarrow> export_outcome" where
  "onMessage_EXPORT_TO_ONENOTE request = snd (export_branch (False, []) request)"

definition sample_export :: export_request where
  "sample_export = \<lparr>requestId = Some ''export-1'', accessToken = Some ''token'',
     content = Some ''<html></html>''\<rparr>"

section \<open>Properties\<close>

subsection \<open>arrayBufferToBase64\<close>

lemma subarray_take_drop:
  "i \<le> length bs \<Longrightarrow> subarray bs i (i + n) = take n (drop i bs)"
  by (auto simp: subarray_def min_def)

lemma binary_loop_eq:
  "i \<le> length bs \<Longrightarrow> binary_loop bs i binary = binary @ fromCharCode (drop i bs)"
proof (induction bs i binary rule: binary_loop.induct)
  case (1 bs i binary)
  show ?case
  proof (cases "i < length bs")
    case False
    with "1.prems" show ?thesis
      by (subst binary_loop.simps) (simp add: fromCharCode_def)
  next
    case True
    show ?thesis
    proof (cases "i + chunkSize \<le> length bs")
      case le: True
      have step: "binary_loop bs i binary =
          binary_loop bs (i + chunkSize) (binary @ fromCharCode (subarray bs i (i + chunkSize)))"
        using True by (subst binary_loop.simps) simp
      have "binary_loop bs (i + chunkSize) (binary @ fromCharCode (subarray bs i (i + chunkSize)))
          = (binary @ fromCharCode (subarray bs i (i + chunkSize))) @ fromCharCode (drop (i + chunkSize) bs)"
        using "1.IH" [OF True le] .
      also have "\<dots> = binary @ fromCharCode (take chunkSize (drop i bs) @ drop chunkSize (drop i bs))"
      proof -
        have sub: "subarray bs i (i + chunkSize) = take chunkSize (drop i bs)"
          using "1.prems" by (rule subarray_take_drop)
        have dd: "drop (i + chunkSize) bs = drop chunkSize (drop i bs)"
          by (simp add: add.commute)
        show ?thesis unfolding sub dd by (simp add: fromCharCode_def)
      qed
      also have "\<dots> = binary @ fromCharCode (drop i bs)"
        by (simp only: append_take_drop_id)
      finally show ?thesis using step by (simp only:)
    next
      case gt: False
      have step: "binary_loop bs i binary =
          binary_loop bs (i + chunkSize) (binary @ fromCharCode (subarray bs i (i + chunkSize)))"
        using True by (subst binary_loop.simps) simp
      have stop: "binary_loop bs (i + chunkSize) acc = acc" for acc
        using gt by (subst binary_loop.simps) simp
      have "subarray bs i (i + chunkSize) = drop i bs"
        using "1.prems" gt by (simp add: subarray_take_drop)
      with step stop show ?thesis by simp
    qed
  qed
qed

text \<open>
  C10. For every input buffer, \<open>arrayBufferToBase64\<close>, which builds the binary string
  slice by slice (32 KiB each), returns the same base64 text as encoding the whole buffer
  in one pass.
\<close>

theorem C10_arrayBufferToBase64_naive:
  "arrayBufferToBase64 arrayBuffer = naiveBase64 arrayBuffer"
  by (simp add: arrayBufferToBase64_def naiveBase64_def binary_loop_eq)

subsection \<open>Authentication and derived keys of the storage worker\<close>

lemma unauthorized_iff:
  "unauthorized h \<longleftrightarrow> (case h of None \<Rightarrow> True | Some v \<Rightarrow> \<not> startsWith v ''Bearer '')"
  by (auto simp: unauthorized_def truthy_def str_of_def startsWith_def split: option.splits)

lemma unauthorized_bearer [simp]: "\<not> unauthorized (Some (bearer_header token))"
  by (simp add: unauthorized_def truthy_def str_of_def startsWith_def bearer_header_def)

lemma status_respond [simp]: "status (respond c os) = c" "ops (respond c os) = os"
  by (simp_all add: respond_def)

lemma handleR2Upload_401:
  "status (handleR2Upload req e) = 401 \<longleftrightarrow> unauthorized (r_authorization req)"
  by (simp add: handleR2Upload_def Let_def)

lemma handleR2List_401:
  "status (handleR2List req e) = 401 \<longleftrightarrow> unauthorized (r_authorization req)"
  by (simp add: handleR2List_def Let_def split: option.splits list.splits r2_get_result.splits)

lemma handleR2Get_401:
  "status (handleR2Get req e) = 401 \<longleftrightarrow> unauthorized (r_authorization req)"
  by (simp add: handleR2Get_def Let_def split: option.splits r2_get_result.splits)

lemma handleTranscribe_401:
  "status (handleTranscribe req e) = 401 \<longleftrightarrow> unauthorized (r_authorization req)"
  by (simp add: handleTranscribe_def Let_def split: option.splits ai_result.splits)

lemma handleGetTranscription_401:
  "status (handleGetTranscription req e) = 401 \<longleftrightarrow> unauthorized (r_authorization req)"
  by (simp add: handleGetTranscription_def Let_def split: option.splits r2_get_result.splits)

lemma handleSummarize_401:
  "status (handleSummarize req e) = 401 \<longleftrightarrow> unauthorized (r_authorization req)"
  by (simp add: handleSummarize_def Let_def split: option.splits r2_get_result.splits ai_result.splits)

lemma token_irrelevant:
  "handleR2Upload (req\<lparr>r_authorization := Some (bearer_header t)\<rparr>) e
     = handleR2Upload (req\<lparr>r_authorization := Some (bearer_header t')\<rparr>) e"
  "handleR2List (req\<lparr>r_authorization := Some (bearer_header t)\<rparr>) e
     = handleR2List (req\<lparr>r_authorization := Some (bearer_header t')\<rparr>) e"
  "handleR2Get (req\<lparr>r_authorization := Some (bearer_header t)\<rparr>) e
     = handleR2Get (req\<lparr>r_authorization := Some (bearer_header t')\<rparr>) e"
  "handleTranscribe (req\<lparr>r_authorization := Some (bearer_header t)\<rparr>) e
     = handleTranscribe (req\<lparr>r_authorization := Some (bearer_header t')\<rparr>) e"
  "handleSummarize (req\<lparr>r_authorization := Some (bearer_header t)\<rparr>) e
     = handleSummarize (req\<lparr>r_authorization := Some (bearer_header t')\<rparr>) e"
  by (simp_all add: handleR2Upload_def handleR2List_def handleR2Get_def handleTranscribe_def
        handleSummarize_def)

lemma worker_fetch_routes:
  "worker_fetch (req\<lparr>r_method := ''PUT'', r_pathname := ''/r2-upload''\<rparr>) e
     = handleR2Upload (req\<lparr>r_method := ''PUT'', r_pathname := ''/r2-upload''\<rparr>) e"
  "worker_fetch (req\<lparr>r_method := ''POST'', r_pathname := ''/r2-list''\<rparr>) e
     = handleR2List (req\<lparr>r_method := ''POST'', r_pathname := ''/r2-list''\<rparr>) e"
  "worker_fetch (req\<lparr>r_method := ''POST'', r_pathname := ''/r2-get''\<rparr>) e
     = handleR2Get (req\<lparr>r_method := ''POST'', r_pathname := ''/r2-get''\<rparr>) e"
  "worker_fetch (req\<lparr>r_method := ''POST'', r_pathname := ''/api/transcribe''\<rparr>) e
     = handleTranscribe (req\<lparr>r_method := ''POST'', r_pathname := ''/api/transcribe''\<rparr>) e"
  "worker_fetch (req\<lparr>r_method := ''POST'', r_pathname := ''/api/summarize''\<rparr>) e
     = handleSummarize (req\<lparr>r_method := ''POST'', r_pathname := ''/api/summarize''\<rparr>) e"
  by (simp_all add: worker_fetch_def)

lemma dash_only_first: "0 < j \<Longrightarrow> j < 19 \<Longrightarrow> ''-transcription.json'' ! j \<noteq> CHR ''-''"
proof -
  assume j: "0 < j" "j < 19"
  have "CHR ''-'' \<notin> set (tl ''-transcription.json'')" by simp
  moreover have "''-transcription.json'' ! j = tl ''-transcription.json'' ! (j - 1)"
    using j by (cases j) simp_all
  moreover have "j - 1 < length (tl ''-transcription.json'')" using j by simp
  ultimately show ?thesis by (metis nth_mem)
qed

lemma prefix_nth: "prefix p x \<Longrightarrow> n < length p \<Longrightarrow> x ! n = p ! n"
  by (auto simp: prefix_def nth_append)

lemma no_straddle:
  assumes "prefix ''-transcription.json'' (s @ ''-transcription.json'')" "s \<noteq> []"
  shows "sublist ''-transcription.json'' s"
proof (cases "19 \<le> length s")
  case True
  have "prefix s (s @ ''-transcription.json'')" by simp
  with assms(1) have "prefix ''-transcription.json'' s"
    by (rule prefix_length_prefix) (use True in simp)
  then show ?thesis by (rule prefix_imp_sublist)
next
  case False
  let ?p = "''-transcription.json''"
  have l: "0 < length s" "length s < 19" using False assms(2) by auto
  have "(s @ ?p) ! length s = ?p ! length s"
    using assms(1) by (rule prefix_nth) (use l in simp)
  moreover have "(s @ ?p) ! length s = CHR ''-''" by (simp add: nth_append)
  ultimately have "?p ! length s = CHR ''-''" by simp
  with dash_only_first [OF l] show ?thesis by simp
qed

lemma replace_suffix_gen:
  assumes straddle: "\<And>s. s \<noteq> [] \<Longrightarrow> prefix p (s @ p) \<Longrightarrow> sublist p s"
    and "p \<noteq> []" and "\<not> sublist p stem"
  shows "js_replace_first p r (stem @ p) = stem @ r"
  using assms(3)
proof (induction stem)
  case Nil
  obtain c cs where p: "p = c # cs" using \<open>p \<noteq> []\<close> by (cases p) auto
  show ?case by (simp add: p)
next
  case (Cons c cs)
  have np: "\<not> prefix p (c # (cs @ p))"
    using straddle [of "c # cs"] Cons.prems by auto
  have "\<not> sublist p cs"
    using Cons.prems by (auto simp: sublist_Cons_right)
  from Cons.IH [OF this] np show ?case by simp
qed

lemma replace_suffix:
  "\<not> sublist ''-transcription.json'' stem \<Longrightarrow>
   js_replace_first ''-transcription.json'' ''-summary.json'' (stem @ ''-transcription.json'')
     = stem @ ''-summary.json''"
  by (rule replace_suffix_gen) (use no_straddle in blast, simp_all)

lemma replace_audio_ext_stem:
  "ext = ''.wav'' \<or> ext = ''.mp3'' \<or> ext = ''.webm'' \<Longrightarrow>
   replace_audio_ext (stem @ ext) = stem @ ''-transcription.json''"
  by (auto simp: replace_audio_ext_def endsWith_def suffix_def)


text \<open>
  C9. Each of the endpoints r2-upload, r2-list, r2-get, transcribe and summarize answers
  401 exactly when the Authorization header is absent or does not start with \<open>Bearer \<close>;
  the token after the prefix is never looked at: with any two tokens the response is the
  same, whatever the bucket and the AI binding do.
\<close>

theorem C9_unauthorized_exactly_without_bearer:
  "(status (handleR2Upload req e) = 401
      \<longleftrightarrow> (case r_authorization req of None \<Rightarrow> True | Some h \<Rightarrow> \<not> startsWith h ''Bearer ''))
   \<and> (status (handleR2List req e) = 401
      \<longleftrightarrow> (case r_authorization req of None \<Rightarrow> True | Some h \<Rightarrow> \<not> startsWith h ''Bearer ''))
   \<and> (status (handleR2Get req e) = 401
      \<longleftrightarrow> (case r_authorization req of None \<Rightarrow> True | Some h \<Rightarrow> \<not> startsWith h ''Bearer ''))
   \<and> (status (handleTranscribe req e) = 401
      \<longleftrightarrow> (case r_authorization req of None \<Rightarrow> True | Some h \<Rightarrow> \<not> startsWith h ''Bearer ''))
   \<and> (status (handleSummarize req e) = 401
      \<longleftrightarrow> (case r_authorization req of None \<Rightarrow> True | Some h \<Rightarrow> \<not> startsWith h ''Bearer ''))
   \<and> handleR2Upload (req\<lparr>r_authorization := Some (bearer_header token)\<rparr>) e
        = handleR2Upload (req\<lparr>r_authorization := Some (bearer_header token')\<rparr>) e
   \<and> handleR2List (req\<lparr>r_authorization := Some (bearer_header token)\<rparr>) e
        = handleR2List (req\<lparr>r_authorization := Some (bearer_header token')\<rparr>) e
   \<and> handleR2Get (req\<lparr>r_authorization := Some (bearer_header token)\<rparr>) e
        = handleR2Get (req\<lparr>r_authorization := Some (bearer_header token')\<rparr>) e
   \<and> handleTranscribe (req\<lparr>r_authorization := Some (bearer_header token)\<rparr>) e
        = handleTranscribe (req\<lparr>r_authorization := Some (bearer_header token')\<rparr>) e
   \<and> handleSummarize (req\<lparr>r_authorization := Some (bearer_header token)\<rparr>) e
        = handleSummarize (req\<lparr>r_authorization := Some (bearer_header token')\<rparr>) e"
  unfolding handleR2Upload_401 handleR2List_401 handleR2Get_401 handleTranscribe_401
    handleSummarize_401 unauthorized_iff
  by (simp add: token_irrelevant [where t = token and t' = token'])

text \<open>The sample request without a header, with a Basic header, and with a made-up token.\<close>

theorem C9_witness:
  "status (handleR2Upload (sample_request None) sample_env) = 401
   \<and> status (handleSummarize (sample_request (Some ''Basic dXNlcg=='')) sample_env) = 401
   \<and> status (handleSummarize (sample_request (Some (bearer_header ''not-a-real-token''))) sample_env) = 200"
proof -
  have a: "status (handleR2Upload (sample_request None) sample_env) = 401"
    using C9_unauthorized_exactly_without_bearer [of "sample_request None" sample_env]
    by (simp add: sample_request_def)
  have b: "status (handleSummarize (sample_request (Some ''Basic dXNlcg=='')) sample_env) = 401"
    using C9_unauthorized_exactly_without_bearer
      [of "sample_request (Some ''Basic dXNlcg=='')" sample_env]
    by (simp add: sample_request_def startsWith_def)
  have c: "status (handleSummarize (sample_request (Some (bearer_header ''not-a-real-token''))) sample_env) = 200"
    by (simp add: handleSummarize_def sample_request_def sample_env_def truthy_def str_of_def
        trim_empty_def js_whitespace_def Let_def sample_key_def)
  from a b c show ?thesis by simp
qed

text \<open>
  C8. For an audio key \<open>stem @ ext\<close> with \<open>ext\<close> one of .wav, .mp3, .webm the
  transcription key is \<open>stem @ -transcription.json\<close>, and the summary key is the
  transcription key with \<open>-transcription.json\<close> replaced by \<open>-summary.json\<close> (the
  first occurrence, which is the suffix whenever the stem does not itself contain
  \<open>-transcription.json\<close>). The transcribe handler writes, the get-transcription handler
  reads, and the summarize handler (given the audio key only) reads exactly that
  transcription key, and the summarize handler writes the summary key derived from it.
\<close>

theorem C8_artifact_keys_agree:
  assumes "ext = ''.wav'' \<or> ext = ''.mp3'' \<or> ext = ''.webm''"
  shows "replace_audio_ext (stem @ ext) = stem @ ''-transcription.json''
    \<and> (\<not> str_includes stem ''-transcription.json'' \<longrightarrow>
         summary_key_of (replace_audio_ext (stem @ ext)) = stem @ ''-summary.json'')
    \<and> (r_formData req = Some fd \<and> f_key fd = Some (stem @ ext)
         \<and> status (handleTranscribe req e) = 200 \<longrightarrow>
         ops (handleTranscribe req e) = [R2Put (stem @ ''-transcription.json'')])
    \<and> (r_queryKey req = Some (stem @ ext) \<and> status (handleGetTranscription req e) = 200 \<longrightarrow>
         ops (handleGetTranscription req e) = [R2Get (stem @ ''-transcription.json'')])
    \<and> (r_json req = Some body \<and> j_audioKey body = Some (stem @ ext)
         \<and> \<not> truthy (j_transcriptionKey body) \<and> status (handleSummarize req e) = 200 \<longrightarrow>
         ops (handleSummarize req e)
           = [R2Get (stem @ ''-transcription.json''),
              R2Put (summary_key_of (stem @ ''-transcription.json''))])"
proof -
  have key: "replace_audio_ext (stem @ ext) = stem @ ''-transcription.json''"
    using assms by (rule replace_audio_ext_stem)
  have ne: "stem @ ext \<noteq> []" using assms by auto
  have tr: "truthy (Some (stem @ ext))" "str_of (Some (stem @ ext)) = stem @ ext"
    using ne by (simp_all add: truthy_def str_of_def)
  have s: "\<not> str_includes stem ''-transcription.json'' \<longrightarrow>
         summary_key_of (replace_audio_ext (stem @ ext)) = stem @ ''-summary.json''"
    unfolding key summary_key_of_def str_includes_def using replace_suffix by blast
  have t: "r_formData req = Some fd \<and> f_key fd = Some (stem @ ext)
         \<and> status (handleTranscribe req e) = 200 \<longrightarrow>
         ops (handleTranscribe req e) = [R2Put (stem @ ''-transcription.json'')]"
    by (auto simp: handleTranscribe_def Let_def tr key split: option.splits ai_result.splits if_splits)
  have g: "r_queryKey req = Some (stem @ ext) \<and> status (handleGetTranscription req e) = 200 \<longrightarrow>
         ops (handleGetTranscription req e) = [R2Get (stem @ ''-transcription.json'')]"
    by (auto simp: handleGetTranscription_def Let_def tr key split: r2_get_result.splits if_splits)
  have u: "r_json req = Some body \<and> j_audioKey body = Some (stem @ ext)
         \<and> \<not> truthy (j_transcriptionKey body) \<and> status (handleSummarize req e) = 200 \<longrightarrow>
         ops (handleSummarize req e)
           = [R2Get (stem @ ''-transcription.json''),
              R2Put (summary_key_of (stem @ ''-transcription.json''))]"
    by (auto simp: handleSummarize_def Let_def tr key
        split: r2_get_result.splits ai_result.splits if_splits)
  from key s t g u show ?thesis by blast
qed


text \<open>The three handlers on the sample recording.\<close>

theorem C8_witness:
  "ops (handleTranscribe (sample_request (Some (bearer_header ''t''))) sample_env)
     = [R2Put ''recordings/u1-s1/complete-recording-2024-01-01T10-00-00.000Z-transcription.json'']
   \<and> ops (handleGetTranscription (sample_request (Some (bearer_header ''t''))) sample_env)
     = [R2Get ''recordings/u1-s1/complete-recording-2024-01-01T10-00-00.000Z-transcription.json'']
   \<and> ops (handleSummarize (sample_request (Some (bearer_header ''t''))) sample_env)
     = [R2Get ''recordings/u1-s1/complete-recording-2024-01-01T10-00-00.000Z-transcription.json'',
        R2Put ''recordings/u1-s1/complete-recording-2024-01-01T10-00-00.000Z-summary.json'']"
proof -
  let ?stem = "''recordings/u1-s1/complete-recording-2024-01-01T10-00-00.000Z''"
  let ?R = "sample_request (Some (bearer_header ''t''))"
  let ?fd = "\<lparr>f_audio = Some [1, 2, 3], f_key = Some sample_key\<rparr>"
  let ?body = "\<lparr>j_prefix = Some ''summaries/'', j_key = Some sample_key,
                 j_transcriptionKey = None, j_audioKey = Some sample_key\<rparr>"
  have h0: "''.webm'' = ''.wav'' \<or> ''.webm'' = ''.mp3'' \<or> ''.webm'' = ''.webm''" by simp
  note T = C8_artifact_keys_agree [OF h0, of ?stem ?R ?fd sample_env ?body]
  have k: "sample_key = ?stem @ ''.webm''" by (simp add: sample_key_def)
  have h1: "\<not> str_includes ?stem ''-transcription.json''" by code_simp
  have ev: "truthy (Some sample_key)" "str_of (Some sample_key) = sample_key"
    "\<not> truthy None" "\<not> trim_empty ''some words''"
    by (simp_all add: truthy_def str_of_def sample_key_def trim_empty_def js_whitespace_def)
  have h2: "r_formData ?R = Some ?fd \<and> f_key ?fd = Some (?stem @ ''.webm'')
      \<and> status (handleTranscribe ?R sample_env) = 200"
    unfolding k [symmetric]
    by (simp add: handleTranscribe_def sample_request_def sample_env_def ev Let_def
        unauthorized_bearer)
  have h3: "r_queryKey ?R = Some (?stem @ ''.webm'')
      \<and> status (handleGetTranscription ?R sample_env) = 200"
    unfolding k [symmetric]
    by (simp add: handleGetTranscription_def sample_request_def sample_env_def ev Let_def
        unauthorized_bearer)
  have h4: "r_json ?R = Some ?body \<and> j_audioKey ?body = Some (?stem @ ''.webm'')
      \<and> \<not> truthy (j_transcriptionKey ?body) \<and> status (handleSummarize ?R sample_env) = 200"
    unfolding k [symmetric]
    by (simp add: handleSummarize_def sample_request_def sample_env_def ev Let_def
        unauthorized_bearer)
  from T h1 h2 h3 h4 have
    a: "replace_audio_ext (?stem @ ''.webm'') = ?stem @ ''-transcription.json''" and
    b: "summary_key_of (replace_audio_ext (?stem @ ''.webm'')) = ?stem @ ''-summary.json''" and
    c: "ops (handleTranscribe ?R sample_env) = [R2Put (?stem @ ''-transcription.json'')]" and
    d: "ops (handleGetTranscription ?R sample_env) = [R2Get (?stem @ ''-transcription.json'')]" and
    e: "ops (handleSummarize ?R sample_env)
          = [R2Get (?stem @ ''-transcription.json''),
             R2Put (summary_key_of (?stem @ ''-transcription.json''))]"
    by blast+
  from b have b': "summary_key_of (?stem @ ''-transcription.json'') = ?stem @ ''-summary.json''"
    unfolding a .
  show ?thesis unfolding c d e b' by simp
qed

subsection \<open>At most one upload per session\<close>

lemma uploads_append [simp]: "uploads (a @ b) = uploads a @ uploads b"
  by (induction a rule: uploads.induct) simp_all

lemma processPortUpload_cases:
  "processPortUpload now s = (s, []) \<or>
   (\<exists>u. currentUploadSession s = Some u \<and> receivedChunks u = totalChunks u \<and>
        processPortUpload now s
          = (s\<lparr>uploadInProgressId := Some now\<rparr>, [StartUpload (blob_of (chunks u))]))"
  by (auto simp: processPortUpload_def split: option.splits)

lemma processPortUpload_spent:
  "uploads (snd (processPortUpload now s)) = [] \<and> fst (processPortUpload now s) = s
   \<or> length (uploads (snd (processPortUpload now s))) = 1 \<and> spent (fst (processPortUpload now s))"
  using processPortUpload_cases [of now s] by (auto simp: spent_def)

lemma step_any:
  assumes "\<not> is_init ev"
  shows "uploads (snd (step ev s)) = [] \<or>
         length (uploads (snd (step ev s))) = 1 \<and> spent (fst (step ev s))"
proof (cases ev)
  case (Pair now e)
  show ?thesis
  proof (cases e)
    case EvConnect
    with Pair show ?thesis by (simp add: onConnect_def)
  next
    case (EvInit m)
    with Pair assms show ?thesis by simp
  next
    case (EvChunk i c)
    show ?thesis
    proof (cases "currentUploadSession s")
      case None
      with Pair EvChunk show ?thesis by (simp add: handleAudioChunk_def)
    next
      case (Some u)
      let ?s' = "s\<lparr>currentUploadSession := Some (u\<lparr>chunks := array_set (chunks u) i c,
                      receivedChunks := receivedChunks u + 1\<rparr>)\<rparr>"
      from processPortUpload_spent [of now ?s'] Pair EvChunk Some show ?thesis
        by (auto simp: handleAudioChunk_def Let_def split: prod.splits)
    qed
  next
    case EvTransferComplete
    with Pair processPortUpload_spent [of now s] show ?thesis
      by (auto simp: handleTransferComplete_def)
  next
    case EvDisconnect
    with Pair processPortUpload_spent [of now "s\<lparr>audioPort := False\<rparr>"] show ?thesis
      by (auto simp: onDisconnect_def Let_def split: option.splits)
  next
    case EvUploadSettled
    with Pair show ?thesis by (simp add: uploadSettled_def)
  qed
qed

lemma step_spent:
  assumes "spent s" "\<not> is_init ev"
  shows "uploads (snd (step ev s)) = [] \<and> spent (fst (step ev s))"
proof (cases ev)
  case (Pair now e)
  show ?thesis
  proof (cases e)
    case EvConnect
    with Pair assms show ?thesis by (auto simp: onConnect_def spent_def split: option.splits)
  next
    case (EvInit m)
    with Pair assms show ?thesis by simp
  next
    case (EvChunk i c)
    with Pair assms show ?thesis
      by (auto simp: handleAudioChunk_def spent_def Let_def processPortUpload_def
          split: option.splits prod.splits)
  next
    case EvTransferComplete
    with Pair assms show ?thesis
      by (auto simp: handleTransferComplete_def spent_def processPortUpload_def
          split: option.splits)
  next
    case EvDisconnect
    with Pair assms show ?thesis
      by (auto simp: onDisconnect_def spent_def Let_def processPortUpload_def
          split: option.splits)
  next
    case EvUploadSettled
    with Pair show ?thesis by (simp add: uploadSettled_def spent_def)
  qed
qed

lemma same_session_Cons:
  "same_session (ev # evs) \<longleftrightarrow> \<not> is_init ev \<and> same_session evs"
  by (simp add: same_session_def)

lemma run_Cons:
  "run (ev # evs) s = (fst (run evs (fst (step ev s))),
                       snd (step ev s) @ snd (run evs (fst (step ev s))))"
  by (simp add: Let_def split: prod.splits)

lemma run_spent:
  "spent s \<Longrightarrow> same_session evs \<Longrightarrow> uploads (snd (run evs s)) = []"
proof (induction evs arbitrary: s)
  case Nil
  show ?case by simp
next
  case (Cons ev evs)
  from Cons.prems have ni: "\<not> is_init ev" and ss: "same_session evs"
    by (simp_all add: same_session_Cons)
  from step_spent [OF Cons.prems(1) ni]
  have a: "uploads (snd (step ev s)) = []" and b: "spent (fst (step ev s))" by simp_all
  from Cons.IH [OF b ss] a show ?case by (simp only: run_Cons snd_conv uploads_append) simp
qed

lemma run_at_most_once:
  "same_session evs \<Longrightarrow> length (uploads (snd (run evs s))) \<le> 1"
proof (induction evs arbitrary: s)
  case Nil
  show ?case by simp
next
  case (Cons ev evs)
  from Cons.prems have ni: "\<not> is_init ev" and ss: "same_session evs"
    by (simp_all add: same_session_Cons)
  from step_any [OF ni, of s] show ?case
  proof
    assume "uploads (snd (step ev s)) = []"
    with Cons.IH [OF ss, of "fst (step ev s)"] show ?thesis
      by (simp only: run_Cons snd_conv uploads_append) simp
  next
    assume h: "length (uploads (snd (step ev s))) = 1 \<and> spent (fst (step ev s))"
    with run_spent [OF _ ss, of "fst (step ev s)"] show ?thesis
      by (simp only: run_Cons snd_conv uploads_append) simp
  qed
qed

lemma trigger_then_silent:
  assumes "uploads (snd (step ev s)) = [b]" "\<not> is_init ev" "same_session evs"
  shows "uploads (snd (run (ev # evs) s)) = [b]"
proof -
  from step_any [OF assms(2), of s] assms(1) have "spent (fst (step ev s))" by simp
  from run_spent [OF this assms(3)] assms(1) show ?thesis
    by (simp only: run_Cons snd_conv uploads_append) simp
qed

text \<open>What each of the three completion signals does to a session, in every state.\<close>

lemma trigger_uploads:
  assumes "currentUploadSession s = Some u"
  shows "uploads (snd (step (now, EvTransferComplete) s))
           = (if receivedChunks u = totalChunks u \<and> uploadInProgressId s = None
              then [blob_of (chunks u)] else [])"
    and "uploads (snd (step (now, EvDisconnect) s))
           = (if receivedChunks u = totalChunks u \<and> uploadInProgressId s = None \<and> chunks u \<noteq> []
              then [blob_of (chunks u)] else [])"
    and "uploads (snd (step (now, EvChunk i c) s))
           = (if receivedChunks u + 1 = totalChunks u \<and> \<not> audioPort s
              then [blob_of (array_set (chunks u) i c)] else [])"
  using assms
  by (simp_all add: handleTransferComplete_def onDisconnect_def handleAudioChunk_def
      processPortUpload_def Let_def)

lemma guard_held:
  assumes "uploadInProgressId s \<noteq> None"
  shows "step (now, EvTransferComplete) s = (s, [])"
    and "step (now, EvDisconnect) s = (s\<lparr>audioPort := False\<rparr>, [])"
proof -
  from assms obtain g where g: "uploadInProgressId s = Some g" by auto
  show "step (now, EvTransferComplete) s = (s, [])"
    using g by (simp add: handleTransferComplete_def)
  show "step (now, EvDisconnect) s = (s\<lparr>audioPort := False\<rparr>, [])"
    using g by (simp add: onDisconnect_def Let_def split: option.splits)
qed

text \<open>
  C3 (as amended). Over any events of one session (chunks, \<open>transfer_complete\<close>,
  disconnects, reconnects, an upload settling) at most one upload is started. Which
  signal starts it is decided by the state alone: \<open>transfer_complete\<close> does exactly when
  the received count equals the total and no upload is in progress, a disconnect exactly
  when moreover the session has a slot, and a chunk exactly when it brings the count to
  the total while the port is gone. After any of them has started the upload, whatever
  events of the session follow, a second completion signal included, no second upload is
  started. While \<open>uploadInProgressId\<close> is set, by the upload of this or of an earlier
  session, \<open>transfer_complete\<close> does nothing and a disconnect only forgets the port; and
  a session that has reached its total while the guard is set is never uploaded.
\<close>

theorem C3_upload_at_most_once:
  "(same_session evs \<longrightarrow> length (uploads (snd (run evs s))) \<le> 1)
   \<and> (currentUploadSession s = Some u \<longrightarrow>
        uploads (snd (step (now, EvTransferComplete) s))
          = (if receivedChunks u = totalChunks u \<and> uploadInProgressId s = None
             then [blob_of (chunks u)] else [])
        \<and> uploads (snd (step (now, EvDisconnect) s))
          = (if receivedChunks u = totalChunks u \<and> uploadInProgressId s = None \<and> chunks u \<noteq> []
             then [blob_of (chunks u)] else [])
        \<and> uploads (snd (step (now, EvChunk i c) s))
          = (if receivedChunks u + 1 = totalChunks u \<and> \<not> audioPort s
             then [blob_of (array_set (chunks u) i c)] else []))
   \<and> (same_session evs \<and> \<not> is_init ev \<and> uploads (snd (step ev s)) = [b] \<longrightarrow>
        uploads (snd (run (ev # evs) s)) = [b])
   \<and> (same_session evs \<and> currentUploadSession s = Some u
        \<and> receivedChunks u = totalChunks u \<and> uploadInProgressId s = None \<longrightarrow>
        uploads (snd (run ((now, EvTransferComplete) # evs) s)) = [blob_of (chunks u)])
   \<and> (same_session evs \<and> currentUploadSession s = Some u
        \<and> receivedChunks u = totalChunks u \<and> uploadInProgressId s = None
        \<and> chunks u \<noteq> [] \<longrightarrow>
        uploads (snd (run ((now, EvDisconnect) # evs) s)) = [blob_of (chunks u)])
   \<and> (same_session evs \<and> currentUploadSession s = Some u
        \<and> receivedChunks u + 1 = totalChunks u \<and> \<not> audioPort s \<longrightarrow>
        uploads (snd (run ((now, EvChunk i c) # evs) s))
          = [blob_of (array_set (chunks u) i c)])
   \<and> (uploadInProgressId s \<noteq> None \<longrightarrow>
        step (now, EvTransferComplete) s = (s, [])
        \<and> step (now, EvDisconnect) s = (s\<lparr>audioPort := False\<rparr>, []))
   \<and> (same_session evs \<and> currentUploadSession s = Some u
        \<and> totalChunks u \<le> receivedChunks u \<and> uploadInProgressId s \<noteq> None \<longrightarrow>
        uploads (snd (run evs s)) = [])"
proof (intro conjI impI)
  assume "same_session evs"
  then show "length (uploads (snd (run evs s))) \<le> 1" by (rule run_at_most_once)
next
  assume "currentUploadSession s = Some u"
  then show "uploads (snd (step (now, EvTransferComplete) s))
          = (if receivedChunks u = totalChunks u \<and> uploadInProgressId s = None
             then [blob_of (chunks u)] else [])"
    by (rule trigger_uploads)
next
  assume "currentUploadSession s = Some u"
  then show "uploads (snd (step (now, EvDisconnect) s))
          = (if receivedChunks u = totalChunks u \<and> uploadInProgressId s = None \<and> chunks u \<noteq> []
             then [blob_of (chunks u)] else [])"
    by (rule trigger_uploads)
next
  assume "currentUploadSession s = Some u"
  then show "uploads (snd (step (now, EvChunk i c) s))
          = (if receivedChunks u + 1 = totalChunks u \<and> \<not> audioPort s
             then [blob_of (array_set (chunks u) i c)] else [])"
    by (rule trigger_uploads)
next
  assume h: "same_session evs \<and> \<not> is_init ev \<and> uploads (snd (step ev s)) = [b]"
  from h have a: "uploads (snd (step ev s)) = [b]" and n: "\<not> is_init ev"
    and ss: "same_session evs" by simp_all
  from a n ss show "uploads (snd (run (ev # evs) s)) = [b]" by (rule trigger_then_silent)
next
  assume h: "same_session evs \<and> currentUploadSession s = Some u
        \<and> receivedChunks u = totalChunks u \<and> uploadInProgressId s = None"
  then have "uploads (snd (step (now, EvTransferComplete) s)) = [blob_of (chunks u)]"
    by (simp add: handleTransferComplete_def processPortUpload_def)
  then show "uploads (snd (run ((now, EvTransferComplete) # evs) s)) = [blob_of (chunks u)]"
    by (rule trigger_then_silent) (use h in simp_all)
next
  assume h: "same_session evs \<and> currentUploadSession s = Some u
        \<and> receivedChunks u = totalChunks u \<and> uploadInProgressId s = None \<and> chunks u \<noteq> []"
  then have "uploads (snd (step (now, EvDisconnect) s)) = [blob_of (chunks u)]"
    by (simp add: onDisconnect_def processPortUpload_def)
  then show "uploads (snd (run ((now, EvDisconnect) # evs) s)) = [blob_of (chunks u)]"
    by (rule trigger_then_silent) (use h in simp_all)
next
  assume h: "same_session evs \<and> currentUploadSession s = Some u
        \<and> receivedChunks u + 1 = totalChunks u \<and> \<not> audioPort s"
  then have "uploads (snd (step (now, EvChunk i c) s)) = [blob_of (array_set (chunks u) i c)]"
    by (simp add: handleAudioChunk_def processPortUpload_def)
  then show "uploads (snd (run ((now, EvChunk i c) # evs) s)) = [blob_of (array_set (chunks u) i c)]"
    by (rule trigger_then_silent) (use h in simp_all)
next
  assume "uploadInProgressId s \<noteq> None"
  then show "step (now, EvTransferComplete) s = (s, [])" by (rule guard_held)
next
  assume "uploadInProgressId s \<noteq> None"
  then show "step (now, EvDisconnect) s = (s\<lparr>audioPort := False\<rparr>, [])" by (rule guard_held)
next
  assume h: "same_session evs \<and> currentUploadSession s = Some u
        \<and> totalChunks u \<le> receivedChunks u \<and> uploadInProgressId s \<noteq> None"
  then have "spent s" by (auto simp: spent_def)
  with h show "uploads (snd (run evs s)) = []" by (simp add: run_spent)
qed

text \<open>
  A completed session, each of the three signals, then more completion signals; and the
  same session while an upload is in progress.
\<close>

theorem C3_witness:
  "same_session later_events
   \<and> uploads (snd (run ((1, EvTransferComplete) # later_events)
        \<lparr>audioPort = True, currentUploadSession = Some (sample_session 2 [Some [1], Some [2]]),
         uploadInProgressId = None\<rparr>)) = [[1, 2]]
   \<and> uploads (snd (run ((1, EvDisconnect) # later_events)
        \<lparr>audioPort = True, currentUploadSession = Some (sample_session 2 [Some [1], Some [2]]),
         uploadInProgressId = None\<rparr>)) = [[1, 2]]
   \<and> uploads (snd (run ((1, EvChunk 1 [2]) # later_events)
        \<lparr>audioPort = False, currentUploadSession = Some (sample_session 1 [Some [1], None]),
         uploadInProgressId = None\<rparr>)) = [[1, 2]]
   \<and> uploads (snd (run ((1, EvTransferComplete) # later_events)
        \<lparr>audioPort = True, currentUploadSession = Some (sample_session 2 [Some [1], Some [2]]),
         uploadInProgressId = Some 0\<rparr>)) = []
   \<and> uploads (snd (step (1, EvTransferComplete)
        \<lparr>audioPort = True, currentUploadSession = Some (sample_session 2 [Some [1], Some [2]]),
         uploadInProgressId = Some 0\<rparr>)) = []"
proof -
  let ?u = "sample_session 2 [Some [1], Some [2]]"
  let ?s = "\<lparr>audioPort = True, currentUploadSession = Some ?u, uploadInProgressId = None\<rparr>"
  let ?v = "sample_session 1 [Some [1], None]"
  let ?t = "\<lparr>audioPort = False, currentUploadSession = Some ?v, uploadInProgressId = None\<rparr>"
  let ?h = "\<lparr>audioPort = True, currentUploadSession = Some ?u, uploadInProgressId = Some 0\<rparr>"
  let ?evs = "(1, EvTransferComplete) # later_events"
  have ss: "same_session later_events" by (simp add: same_session_def later_events_def)
  have ss': "same_session ?evs" by (simp add: same_session_def later_events_def)
  have hs: "currentUploadSession ?s = Some ?u \<and> receivedChunks ?u = totalChunks ?u
      \<and> uploadInProgressId ?s = None \<and> chunks ?u \<noteq> []"
    by (simp add: sample_session_def)
  have ht: "currentUploadSession ?t = Some ?v \<and> receivedChunks ?v + 1 = totalChunks ?v
      \<and> \<not> audioPort ?t"
    by (simp add: sample_session_def)
  have hh: "currentUploadSession ?h = Some ?u \<and> totalChunks ?u \<le> receivedChunks ?u
      \<and> uploadInProgressId ?h \<noteq> None"
    by (simp add: sample_session_def)
  have bu: "blob_of (chunks ?u) = [1, 2]"
    by (simp add: sample_session_def blob_of_def blob_part_def)
  have bv: "blob_of (array_set (chunks ?v) 1 [2]) = [1, 2]"
    by (simp add: sample_session_def blob_of_def blob_part_def array_set_def)
  note T1 = C3_upload_at_most_once [of later_events ?s ?u 1 1 "[2]" "(1, EvConnect)" "[]"]
  note T2 = C3_upload_at_most_once [of later_events ?t ?v 1 1 "[2]" "(1, EvConnect)" "[]"]
  note T3 = C3_upload_at_most_once [of ?evs ?h ?u 1 1 "[2]" "(1, EvConnect)" "[]"]
  from T1 ss hs
  have a: "uploads (snd (run ((1, EvTransferComplete) # later_events) ?s)) = [blob_of (chunks ?u)]"
    and b: "uploads (snd (run ((1, EvDisconnect) # later_events) ?s)) = [blob_of (chunks ?u)]"
    by blast+
  from T2 ss ht
  have c: "uploads (snd (run ((1, EvChunk 1 [2]) # later_events) ?t))
      = [blob_of (array_set (chunks ?v) 1 [2])]"
    by blast
  from T3 ss' hh have d: "uploads (snd (run ?evs ?h)) = []" by blast
  from T3 hh have "step (1, EvTransferComplete) ?h = (?h, [])" by blast
  then have e: "uploads (snd (step (1, EvTransferComplete) ?h)) = []" by simp
  from ss a b c d e show ?thesis unfolding bu bv by simp
qed

text \<open>
  C3 as stated fails: the guard is one variable for all sessions, and an upload that
  settles clears whatever session is current. Here a session of one chunk is uploaded,
  and while its upload is in progress a second session receives both of its chunks and
  \<open>transfer_complete\<close>, then the port disconnects; the first upload settles,
  \<open>transfer_complete\<close> and the disconnect arrive once more. The payload of the second
  session is never handed to the upload, and the session is gone.
\<close>

theorem C3_counterexample:
  "uploads (snd (run two_sessions idle)) = [[7]]
   \<and> uploads (snd (run (take 4 two_sessions) idle)) = [[7]]
   \<and> uploads (snd (run (drop 4 two_sessions) (fst (run (take 4 two_sessions) idle)))) = []
   \<and> map_option chunks
       (currentUploadSession (fst (run (take 8 two_sessions) idle))) = Some [Some [1], Some [2]]
   \<and> map_option receivedChunks
       (currentUploadSession (fst (run (take 8 two_sessions) idle))) = Some 2
   \<and> currentUploadSession (fst (run two_sessions idle)) = None"
  by (simp add: two_sessions_def sample_init_def idle_def onConnect_def
      handleInitUpload_def handleAudioChunk_def handleTransferComplete_def onDisconnect_def
      uploadSettled_def processPortUpload_def
      array_set_def blob_of_def blob_part_def Let_def eval_nat_numeral)

subsection \<open>Assembly of the chunks\<close>

lemma run_append:
  "run (a @ b) s = (fst (run b (fst (run a s))), snd (run a s) @ snd (run b (fst (run a s))))"
  by (induction a arbitrary: s) (simp_all add: Let_def split: prod.splits)

text \<open>One chunk message, in every state that has a session.\<close>

lemma chunk_step:
  assumes "currentUploadSession s = Some u"
  shows "currentUploadSession (fst (step (now, EvChunk i c) s))
           = Some (u\<lparr>chunks := array_set (chunks u) i c, receivedChunks := receivedChunks u + 1\<rparr>)"
    and "audioPort (fst (step (now, EvChunk i c) s)) = audioPort s"
    and "uploadInProgressId (fst (step (now, EvChunk i c) s))
           = (if receivedChunks u + 1 = totalChunks u \<and> \<not> audioPort s then Some now
              else uploadInProgressId s)"
  using assms by (simp_all add: handleAudioChunk_def processPortUpload_def Let_def)

text \<open>An upload is started only by a session whose received count equals its total.\<close>

lemma started_only_at_total:
  "uploads (snd (step ev s)) = [] \<or>
   (\<exists>u. currentUploadSession (fst (step ev s)) = Some u \<and> receivedChunks u = totalChunks u
      \<and> uploads (snd (step ev s)) = [blob_of (chunks u)])"
proof (cases ev)
  case (Pair now e)
  show ?thesis
  proof (cases e)
    case EvConnect
    with Pair show ?thesis by (simp add: onConnect_def)
  next
    case (EvInit m)
    with Pair show ?thesis by (simp add: handleInitUpload_def)
  next
    case (EvChunk i c)
    with Pair show ?thesis
      by (cases "currentUploadSession s")
        (simp_all add: handleAudioChunk_def processPortUpload_def Let_def)
  next
    case EvTransferComplete
    with Pair show ?thesis
      by (cases "currentUploadSession s")
        (simp_all add: handleTransferComplete_def processPortUpload_def)
  next
    case EvDisconnect
    with Pair show ?thesis
      by (cases "currentUploadSession s")
        (simp_all add: onDisconnect_def processPortUpload_def Let_def)
  next
    case EvUploadSettled
    with Pair show ?thesis by (simp add: uploadSettled_def)
  qed
qed

lemma store_all_Cons: "store_all xs ((i, c) # ds) = store_all (array_set xs i c) ds"
  by (simp add: store_all_def)

lemma store_all_append: "store_all xs (ds @ ds') = store_all (store_all xs ds) ds'"
  by (simp add: store_all_def)

text \<open>
  The chunk messages \<open>ds\<close> delivered to a session: the slots and the count afterwards,
  and the upload started on the way, which happens when the port is gone and the count
  passes through the total.
\<close>

lemma deliver_run:
  "currentUploadSession s = Some u \<Longrightarrow>
   currentUploadSession (fst (run (deliveries ds) s))
     = Some (u\<lparr>chunks := store_all (chunks u) ds, receivedChunks := receivedChunks u + length ds\<rparr>)
   \<and> audioPort (fst (run (deliveries ds) s)) = audioPort s
   \<and> uploadInProgressId (fst (run (deliveries ds) s))
     = (if \<not> audioPort s \<and> receivedChunks u < totalChunks u
           \<and> totalChunks u \<le> receivedChunks u + length ds
        then Some 0 else uploadInProgressId s)
   \<and> uploads (snd (run (deliveries ds) s))
     = (if \<not> audioPort s \<and> receivedChunks u < totalChunks u
           \<and> totalChunks u \<le> receivedChunks u + length ds
        then [blob_of (store_all (chunks u) (take (totalChunks u - receivedChunks u) ds))]
        else [])"
proof (induction ds arbitrary: s u)
  case Nil
  then show ?case by (auto simp: deliveries_def store_all_def)
next
  case (Cons d ds)
  obtain i c where d: "d = (i, c)" by (cases d)
  let ?u = "u\<lparr>chunks := array_set (chunks u) i c, receivedChunks := receivedChunks u + 1\<rparr>"
  let ?s = "fst (step (0, EvChunk i c) s)"
  note cs = chunk_step [OF Cons.prems, of 0 i c]
  note up = trigger_uploads(3) [OF Cons.prems, of 0 i c]
  note IH = Cons.IH [OF cs(1)]
  have unf: "deliveries (d # ds) = (0, EvChunk i c) # deliveries ds"
    by (simp add: deliveries_def d)
  have tk: "receivedChunks u < totalChunks u \<Longrightarrow>
      take (totalChunks u - receivedChunks u) ((i, c) # ds)
        = (i, c) # take (totalChunks u - (receivedChunks u + 1)) ds"
  proof -
    assume "receivedChunks u < totalChunks u"
    then have "totalChunks u - receivedChunks u = Suc (totalChunks u - (receivedChunks u + 1))"
      by simp
    then show ?thesis by (simp only: take_Suc_Cons)
  qed
  have f1: "currentUploadSession (fst (run (deliveries ds) ?s))
      = Some (u\<lparr>chunks := store_all (chunks u) ((i, c) # ds),
                receivedChunks := receivedChunks u + length ((i, c) # ds)\<rparr>)"
    using IH by (simp add: store_all_Cons)
  have f2: "audioPort (fst (run (deliveries ds) ?s)) = audioPort s"
    using IH cs(2) by simp
  have f3: "uploadInProgressId (fst (run (deliveries ds) ?s))
      = (if \<not> audioPort s \<and> receivedChunks u < totalChunks u
           \<and> totalChunks u \<le> receivedChunks u + length ((i, c) # ds)
         then Some 0 else uploadInProgressId s)"
    using IH cs(2,3) by auto
  have f4: "uploads (snd (step (0, EvChunk i c) s)) @ uploads (snd (run (deliveries ds) ?s))
      = (if \<not> audioPort s \<and> receivedChunks u < totalChunks u
           \<and> totalChunks u \<le> receivedChunks u + length ((i, c) # ds)
         then [blob_of (store_all (chunks u) (take (totalChunks u - receivedChunks u) ((i, c) # ds)))]
         else [])"
  proof (cases "receivedChunks u + 1 = totalChunks u \<and> \<not> audioPort s")
    case True
    then have "take (totalChunks u - receivedChunks u) ((i, c) # ds) = [(i, c)]"
      using tk by simp
    with True IH cs(2) up show ?thesis by (simp add: store_all_def)
  next
    case False
    with IH cs(2) up tk show ?thesis by (auto simp: store_all_Cons)
  qed
  have r: "run (deliveries ((i, c) # ds)) s
      = (fst (run (deliveries ds) ?s),
         snd (step (0, EvChunk i c) s) @ snd (run (deliveries ds) ?s))"
    unfolding unf [unfolded d] by (rule run_Cons)
  show ?case unfolding r d fst_conv snd_conv uploads_append
    by (intro conjI) (rule f1 f2 f3 f4)+
qed

lemma array_set_length: "i < length xs \<Longrightarrow> length (array_set xs i v) = length xs"
  by (simp add: array_set_def)

lemma array_set_nth:
  "i < length xs \<Longrightarrow> j < length xs \<Longrightarrow> array_set xs i v ! j = (if j = i then Some v else xs ! j)"
  by (simp add: array_set_def nth_list_update)

text \<open>A slot holds the bytes of the last message delivered with its index.\<close>

lemma store_all_slots:
  "\<forall>(i, c) \<in> set ds. i < length xs \<Longrightarrow>
   length (store_all xs ds) = length xs \<and>
   (\<forall>j < length xs. store_all xs ds ! j
      = (case map_of (rev ds) j of Some c \<Rightarrow> Some c | None \<Rightarrow> xs ! j))"
proof (induction ds arbitrary: xs)
  case Nil
  show ?case by (simp add: store_all_def)
next
  case (Cons d ds)
  obtain i c where d: "d = (i, c)" by (cases d)
  have i: "i < length xs" using Cons.prems d by simp
  have "\<forall>(k, b) \<in> set ds. k < length (array_set xs i c)"
    using Cons.prems i by (simp add: array_set_length)
  from Cons.IH [OF this] have
    l: "length (store_all (array_set xs i c) ds) = length xs" and
    n: "\<And>j. j < length xs \<Longrightarrow> store_all (array_set xs i c) ds ! j
          = (case map_of (rev ds) j of Some b \<Rightarrow> Some b | None \<Rightarrow> array_set xs i c ! j)"
    using i by (simp_all add: array_set_length)
  have mo: "map_of (rev ((i, c) # ds)) j
      = (case map_of (rev ds) j of Some b \<Rightarrow> Some b | None \<Rightarrow> if j = i then Some c else None)" for j
    by (simp add: map_add_def split: option.splits)
  show ?case unfolding d store_all_Cons
  proof (intro conjI allI impI)
    show "length (store_all (array_set xs i c) ds) = length xs" by (rule l)
  next
    fix j assume j: "j < length xs"
    show "store_all (array_set xs i c) ds ! j
      = (case map_of (rev ((i, c) # ds)) j of Some b \<Rightarrow> Some b | None \<Rightarrow> xs ! j)"
      unfolding n [OF j] mo using i j by (simp add: array_set_nth split: option.splits)
  qed
qed

lemma store_all_replicate:
  assumes "\<forall>(i, c) \<in> set ds. i < n"
  shows "store_all (replicate n None) ds = map (map_of (rev ds)) [0..<n]"
proof (rule nth_equalityI)
  from store_all_slots [of ds "replicate n None"] assms
  show "length (store_all (replicate n None) ds) = length (map (map_of (rev ds)) [0..<n])"
    by simp
next
  fix j assume "j < length (store_all (replicate n None) ds)"
  with store_all_slots [of ds "replicate n None"] assms
  show "store_all (replicate n None) ds ! j = map (map_of (rev ds)) [0..<n] ! j"
    by (simp split: option.splits)
qed

text \<open>A whole transfer, from any state of the script.\<close>

lemma transfer_result:
  assumes rng: "\<forall>(i, c) \<in> set ds. i < iu_totalChunks m"
  shows "map_option chunks (currentUploadSession (fst (run (transfer m ds) s)))
           = Some (map (map_of (rev ds)) [0..<iu_totalChunks m])"
    and "map_option receivedChunks (currentUploadSession (fst (run (transfer m ds) s)))
           = Some (length ds)"
    and "uploads (snd (run (transfer m ds) s))
           = (if audioPort s \<or> iu_totalChunks m = 0
              then (if length ds = iu_totalChunks m \<and> uploadInProgressId s = None
                    then [blob_of (map (map_of (rev ds)) [0..<iu_totalChunks m])] else [])
              else if iu_totalChunks m \<le> length ds
                then [blob_of (map (map_of (rev (take (iu_totalChunks m) ds))) [0..<iu_totalChunks m])]
                else [])"
proof -
  let ?N = "iu_totalChunks m"
  let ?u = "\<lparr>us_size = iu_size m, us_mimeType = iu_mimeType m,
           us_timestamp = iu_timestamp m, us_duration = iu_duration m,
           totalChunks = ?N, receivedChunks = 0,
           chunks = replicate ?N None, inProgress = True\<rparr>"
  let ?s1 = "fst (step (0, EvInit m) s)"
  have s1: "currentUploadSession ?s1 = Some ?u" "audioPort ?s1 = audioPort s"
      "uploadInProgressId ?s1 = uploadInProgressId s"
    and e1: "uploads (snd (step (0, EvInit m) s)) = []"
    by (simp_all add: handleInitUpload_def)
  let ?s2 = "fst (run (deliveries ds) ?s1)"
  let ?u2 = "?u\<lparr>chunks := store_all (chunks ?u) ds, receivedChunks := receivedChunks ?u + length ds\<rparr>"
  let ?trig = "\<not> audioPort s \<and> 0 < ?N \<and> ?N \<le> length ds"
  note D = deliver_run [OF s1(1), of ds, unfolded s1(2,3)]
  have s2: "currentUploadSession ?s2 = Some ?u2" using D by simp
  have g2: "uploadInProgressId ?s2 = (if ?trig then Some 0 else uploadInProgressId s)"
    using D by simp
  have e2: "uploads (snd (run (deliveries ds) ?s1))
      = (if ?trig then [blob_of (store_all (replicate ?N None) (take ?N ds))] else [])"
    using D by simp
  have slots: "store_all (replicate ?N None) ds = map (map_of (rev ds)) [0..<?N]"
    using rng by (rule store_all_replicate)
  have rng': "\<forall>(i, c) \<in> set (take ?N ds). i < ?N"
    using rng set_take_subset [of ?N ds] by blast
  have slots': "store_all (replicate ?N None) (take ?N ds) = map (map_of (rev (take ?N ds))) [0..<?N]"
    using rng' by (rule store_all_replicate)
  have e3: "uploads (snd (step (0, EvTransferComplete) ?s2))
      = (if length ds = ?N \<and> uploadInProgressId ?s2 = None
         then [blob_of (store_all (replicate ?N None) ds)] else [])"
    using trigger_uploads(1) [OF s2, of 0] by simp
  have s3: "currentUploadSession (fst (step (0, EvTransferComplete) ?s2)) = Some ?u2"
    using s2 by (simp add: handleTransferComplete_def processPortUpload_def)
  have run: "run (transfer m ds) s
      = (fst (step (0, EvTransferComplete) ?s2),
         snd (step (0, EvInit m) s) @ snd (run (deliveries ds) ?s1)
           @ snd (step (0, EvTransferComplete) ?s2))"
    unfolding transfer_def run_Cons [of "(0, EvInit m)"] run_append [of "deliveries ds"]
    by (simp add: run_Cons)
  show "map_option chunks (currentUploadSession (fst (run (transfer m ds) s)))
           = Some (map (map_of (rev ds)) [0..<?N])"
    unfolding run fst_conv s3 using slots by simp
  show "map_option receivedChunks (currentUploadSession (fst (run (transfer m ds) s)))
           = Some (length ds)"
    unfolding run fst_conv s3 by simp
  show "uploads (snd (run (transfer m ds) s))
           = (if audioPort s \<or> ?N = 0
              then (if length ds = ?N \<and> uploadInProgressId s = None
                    then [blob_of (map (map_of (rev ds)) [0..<?N])] else [])
              else if ?N \<le> length ds
                then [blob_of (map (map_of (rev (take ?N ds))) [0..<?N])]
                else [])"
    unfolding run snd_conv uploads_append e1 e2 e3 g2 slots slots' by auto
qed

text \<open>The slots after every chunk of \<open>cs\<close> has been delivered once, in any order.\<close>

lemma permutation_slots:
  assumes "distinct order" "set order = {..<length cs}"
  shows "map (map_of (rev (chunk_messages cs order))) [0..<length cs] = map Some cs"
    and "length (chunk_messages cs order) = length cs"
    and "\<forall>(i, c) \<in> set (chunk_messages cs order). i < length cs"
proof -
  have r: "rev (chunk_messages cs order) = map (\<lambda>i. (i, cs ! i)) (rev order)"
    by (simp add: chunk_messages_def rev_map)
  have "map_of (rev (chunk_messages cs order)) j = Some (cs ! j)" if "j < length cs" for j
    unfolding r using that assms(2) by (simp add: map_of_map_restrict restrict_map_def)
  then have "map (map_of (rev (chunk_messages cs order))) [0..<length cs]
      = map (\<lambda>j. Some (cs ! j)) [0..<length cs]"
    by simp
  also have "\<dots> = map Some (map (\<lambda>j. cs ! j) [0..<length cs])" by simp
  also have "\<dots> = map Some cs" by (simp only: map_nth)
  finally show "map (map_of (rev (chunk_messages cs order))) [0..<length cs] = map Some cs" .
  have "length order = card {..<length cs}" using assms distinct_card by metis
  then show "length (chunk_messages cs order) = length cs" by (simp add: chunk_messages_def)
  show "\<forall>(i, c) \<in> set (chunk_messages cs order). i < length cs"
    using assms(2) by (auto simp: chunk_messages_def)
qed

lemma blob_of_Some: "blob_of (map Some cs) = concat cs"
  by (simp add: blob_of_def blob_part_def comp_def)

lemma permutation_uploads:
  assumes "length cs = iu_totalChunks m" "distinct order" "set order = {..<length cs}"
  shows "uploads (snd (run (transfer m (chunk_messages cs order)) s))
           = (if uploadInProgressId s \<noteq> None \<and> (audioPort s \<or> cs = []) then []
              else [concat cs])"
proof -
  note P = permutation_slots [OF assms(2,3)]
  have rng: "\<forall>(i, c) \<in> set (chunk_messages cs order). i < iu_totalChunks m"
    using P(3) assms(1) by simp
  have tk: "take (length cs) (chunk_messages cs order) = chunk_messages cs order"
    using P(2) by simp
  show ?thesis
    unfolding transfer_result(3) [OF rng] assms(1) [symmetric] tk P(1) blob_of_Some
    using P(2) by auto
qed

text \<open>
  C1 (as amended). An upload is started only by a session whose received count equals its
  total, with the concatenation of its slots as payload. A chunk message stores its bytes
  in the slot of its index, replacing what the slot held and leaving the number of slots
  as it is, and adds one to the received count, whether or not the index was delivered
  before. So for a session of \<open>N\<close> chunks that receives the chunk messages \<open>ds\<close> (indices
  below \<open>N\<close>, any order, repeats allowed) and then \<open>transfer_complete\<close>, from any state of
  the script: each slot holds the bytes of the last message with its index, the count is
  the number of messages, repeats included, and the slots are assembled exactly when
  that number equals \<open>N\<close> and no upload is in progress, if the port is connected; with the
  port gone they are assembled when the \<open>N\<close>-th message arrives, whatever has been
  delivered by then. When every index is delivered exactly once, in any order, the
  outcome is that of the in-order delivery: the concatenation of the chunks is uploaded,
  unless an upload is in progress while the port is connected, when nothing is.
\<close>

theorem C1_assembly_by_delivery_count:
  "(uploads (snd (step ev s)) = [] \<or>
      (\<exists>u. currentUploadSession (fst (step ev s)) = Some u \<and> receivedChunks u = totalChunks u
         \<and> uploads (snd (step ev s)) = [blob_of (chunks u)]))
   \<and> (currentUploadSession s = Some u \<longrightarrow>
        currentUploadSession (fst (step (now, EvChunk k b) s))
          = Some (u\<lparr>chunks := array_set (chunks u) k b, receivedChunks := receivedChunks u + 1\<rparr>))
   \<and> (k < length xs \<longrightarrow> array_set xs k b = xs[k := Some b])
   \<and> ((\<forall>(i, c) \<in> set ds. i < iu_totalChunks m) \<longrightarrow>
        map_option chunks (currentUploadSession (fst (run (transfer m ds) s)))
          = Some (map (map_of (rev ds)) [0..<iu_totalChunks m])
        \<and> map_option receivedChunks (currentUploadSession (fst (run (transfer m ds) s)))
          = Some (length ds)
        \<and> uploads (snd (run (transfer m ds) s))
          = (if audioPort s \<or> iu_totalChunks m = 0
             then (if length ds = iu_totalChunks m \<and> uploadInProgressId s = None
                   then [blob_of (map (map_of (rev ds)) [0..<iu_totalChunks m])] else [])
             else if iu_totalChunks m \<le> length ds
               then [blob_of (map (map_of (rev (take (iu_totalChunks m) ds)))
                       [0..<iu_totalChunks m])]
               else []))
   \<and> (length cs = iu_totalChunks m \<and> distinct order \<and> set order = {..<length cs} \<longrightarrow>
        uploads (snd (run (transfer m (chunk_messages cs order)) s))
          = uploads (snd (run (transfer m (chunk_messages cs [0..<length cs])) s))
        \<and> uploads (snd (run (transfer m (chunk_messages cs order)) s))
          = (if uploadInProgressId s \<noteq> None \<and> (audioPort s \<or> cs = []) then []
             else [concat cs]))"
proof (intro conjI impI)
  show "uploads (snd (step ev s)) = [] \<or>
      (\<exists>u. currentUploadSession (fst (step ev s)) = Some u \<and> receivedChunks u = totalChunks u
         \<and> uploads (snd (step ev s)) = [blob_of (chunks u)])"
    by (rule started_only_at_total)
next
  assume "currentUploadSession s = Some u"
  then show "currentUploadSession (fst (step (now, EvChunk k b) s))
          = Some (u\<lparr>chunks := array_set (chunks u) k b, receivedChunks := receivedChunks u + 1\<rparr>)"
    by (rule chunk_step)
next
  assume "k < length xs"
  then show "array_set xs k b = xs[k := Some b]" by (simp add: array_set_def)
next
  assume r: "\<forall>(i, c) \<in> set ds. i < iu_totalChunks m"
  show "map_option chunks (currentUploadSession (fst (run (transfer m ds) s)))
          = Some (map (map_of (rev ds)) [0..<iu_totalChunks m])"
    using r by (rule transfer_result)
  show "map_option receivedChunks (currentUploadSession (fst (run (transfer m ds) s)))
          = Some (length ds)"
    using r by (rule transfer_result)
  show "uploads (snd (run (transfer m ds) s))
          = (if audioPort s \<or> iu_totalChunks m = 0
             then (if length ds = iu_totalChunks m \<and> uploadInProgressId s = None
                   then [blob_of (map (map_of (rev ds)) [0..<iu_totalChunks m])] else [])
             else if iu_totalChunks m \<le> length ds
               then [blob_of (map (map_of (rev (take (iu_totalChunks m) ds)))
                       [0..<iu_totalChunks m])]
               else [])"
    using r by (rule transfer_result)
next
  assume p: "length cs = iu_totalChunks m \<and> distinct order \<and> set order = {..<length cs}"
  then have l: "length cs = iu_totalChunks m" and d: "distinct order"
    and e: "set order = {..<length cs}" by simp_all
  have d0: "distinct [0..<length cs]" and e0: "set [0..<length cs] = {..<length cs}"
    by auto
  show "uploads (snd (run (transfer m (chunk_messages cs order)) s))
          = uploads (snd (run (transfer m (chunk_messages cs [0..<length cs])) s))"
    unfolding permutation_uploads [OF l d e] permutation_uploads [OF l d0 e0] ..
  show "uploads (snd (run (transfer m (chunk_messages cs order)) s))
          = (if uploadInProgressId s \<noteq> None \<and> (audioPort s \<or> cs = []) then []
             else [concat cs])"
    using l d e by (rule permutation_uploads)
qed

text \<open>
  Two chunks delivered in reverse order, over a connected port and with the port gone; and
  three messages of which the second replaces the bytes of the first.
\<close>

theorem C1_witness:
  "uploads (snd (run (transfer (sample_init 2) (chunk_messages [[1], [2]] [1, 0])) connected))
     = [[1, 2]]
   \<and> uploads (snd (run (transfer (sample_init 2) (chunk_messages [[1], [2]] [1, 0])) idle))
     = [[1, 2]]
   \<and> map_option chunks (currentUploadSession
        (fst (run (transfer (sample_init 2) [(0, [1]), (0, [9]), (1, [2])]) connected)))
     = Some [Some [9], Some [2]]
   \<and> map_option receivedChunks (currentUploadSession
        (fst (run (transfer (sample_init 2) [(0, [1]), (0, [9]), (1, [2])]) connected)))
     = Some 3
   \<and> uploads (snd (run (transfer (sample_init 2) [(0, [1]), (0, [9]), (1, [2])]) connected))
     = []
   \<and> array_set [Some [1], None] 0 [9 :: byte] = [Some [9], None]
   \<and> map_option chunks (currentUploadSession (fst (step (3, EvChunk 0 [9])
        \<lparr>audioPort = True, currentUploadSession = Some (sample_session 1 [Some [1], None]),
         uploadInProgressId = None\<rparr>)))
     = Some [Some [9], None]"
proof -
  let ?m = "sample_init 2"
  let ?cs = "[[1], [2 :: byte]]"
  let ?ds = "[(0 :: nat, [1 :: byte]), (0, [9]), (1, [2])]"
  let ?v = "sample_session 1 [Some [1], None]"
  let ?t = "\<lparr>audioPort = True, currentUploadSession = Some ?v, uploadInProgressId = None\<rparr>"
  have h1: "length ?cs = iu_totalChunks ?m \<and> distinct [1, 0 :: nat]
      \<and> set [1, 0 :: nat] = {..<length ?cs}"
    by (auto simp: sample_init_def)
  have h2: "\<forall>(i, c) \<in> set ?ds. i < iu_totalChunks ?m"
    by (simp add: sample_init_def)
  have h3: "currentUploadSession ?t = Some ?v" by simp
  have h4: "(0 :: nat) < length [Some [1 :: byte], None]" by simp
  have n: "iu_totalChunks ?m = 2" by (simp add: sample_init_def)
  have c: "audioPort connected" "uploadInProgressId connected = None"
    by (simp_all add: connected_def)
  have i: "\<not> audioPort idle" "uploadInProgressId idle = None"
    by (simp_all add: idle_def)
  note T1 = C1_assembly_by_delivery_count
    [of "(3, EvChunk 0 [9])" connected ?v 3 0 "[9]" "[Some [1], None]" ?ds ?m ?cs "[1, 0]"]
  note T2 = C1_assembly_by_delivery_count
    [of "(3, EvChunk 0 [9])" idle ?v 3 0 "[9]" "[Some [1], None]" ?ds ?m ?cs "[1, 0]"]
  note T3 = C1_assembly_by_delivery_count
    [of "(3, EvChunk 0 [9])" ?t ?v 3 0 "[9]" "[Some [1], None]" ?ds ?m ?cs "[1, 0]"]
  from T1 h1 have "uploads (snd (run (transfer ?m (chunk_messages ?cs [1, 0])) connected))
      = (if uploadInProgressId connected \<noteq> None \<and> (audioPort connected \<or> ?cs = []) then []
         else [concat ?cs])" by blast
  then have a: "uploads (snd (run (transfer ?m (chunk_messages ?cs [1, 0])) connected)) = [[1, 2]]"
    using c by simp
  from T2 h1 have "uploads (snd (run (transfer ?m (chunk_messages ?cs [1, 0])) idle))
      = (if uploadInProgressId idle \<noteq> None \<and> (audioPort idle \<or> ?cs = []) then []
         else [concat ?cs])" by blast
  then have b: "uploads (snd (run (transfer ?m (chunk_messages ?cs [1, 0])) idle)) = [[1, 2]]"
    using i by simp
  from T1 h2 have "map_option chunks (currentUploadSession (fst (run (transfer ?m ?ds) connected)))
      = Some (map (map_of (rev ?ds)) [0..<iu_totalChunks ?m])" by blast
  then have d: "map_option chunks (currentUploadSession (fst (run (transfer ?m ?ds) connected)))
      = Some [Some [9], Some [2]]"
    unfolding n by (simp add: eval_nat_numeral)
  from T1 h2 have "map_option receivedChunks
      (currentUploadSession (fst (run (transfer ?m ?ds) connected))) = Some (length ?ds)"
    by blast
  moreover have "length ?ds = 3" by simp
  ultimately have e: "map_option receivedChunks
      (currentUploadSession (fst (run (transfer ?m ?ds) connected))) = Some 3"
    by (simp only:)
  from T1 h2 have "uploads (snd (run (transfer ?m ?ds) connected))
      = (if audioPort connected \<or> iu_totalChunks ?m = 0
             then (if length ?ds = iu_totalChunks ?m \<and> uploadInProgressId connected = None
                   then [blob_of (map (map_of (rev ?ds)) [0..<iu_totalChunks ?m])] else [])
             else if iu_totalChunks ?m \<le> length ?ds
               then [blob_of (map (map_of (rev (take (iu_totalChunks ?m) ?ds)))
                       [0..<iu_totalChunks ?m])]
               else [])" by blast
  then have f: "uploads (snd (run (transfer ?m ?ds) connected)) = []"
    unfolding n using c by simp
  from T1 h4 have "array_set [Some [1], None] 0 [9 :: byte] = [Some [1], None][0 := Some [9]]"
    by blast
  then have g: "array_set [Some [1], None] 0 [9 :: byte] = [Some [9], None]"
    by simp
  from T3 h3 have "currentUploadSession (fst (step (3, EvChunk 0 [9]) ?t))
      = Some (?v\<lparr>chunks := array_set (chunks ?v) 0 [9], receivedChunks := receivedChunks ?v + 1\<rparr>)"
    by blast
  then have h: "map_option chunks (currentUploadSession (fst (step (3, EvChunk 0 [9]) ?t)))
      = Some [Some [9], None]"
    by (simp add: sample_session_def array_set_def)
  show ?thesis by (intro conjI) (rule a b d e f g h)+
qed

text \<open>
  C1 as stated fails. With the deliveries 0, 0, 1 of a two-chunk session over a connected
  port every index has been received and both slots are filled, but the received count is
  3, not 2, and \<open>transfer_complete\<close> assembles nothing, while the in-order delivery
  uploads both chunks. With the port gone the same deliveries are assembled when the
  second message arrives, the slot of index 1 still a hole. And the in-order delivery
  itself, over a connected port, assembles nothing while an upload is in progress.
\<close>

theorem C1_counterexample:
  "map_option chunks (currentUploadSession
       (fst (run (transfer (sample_init 2) (chunk_messages [[1], [2]] [0, 0, 1])) connected)))
     = Some [Some [1], Some [2]]
   \<and> map_option receivedChunks (currentUploadSession
       (fst (run (transfer (sample_init 2) (chunk_messages [[1], [2]] [0, 0, 1])) connected)))
     = Some 3
   \<and> uploads (snd (run (transfer (sample_init 2) (chunk_messages [[1], [2]] [0, 0, 1])) connected))
     = []
   \<and> uploads (snd (run (transfer (sample_init 2) (chunk_messages [[1], [2]] [0, 1])) connected))
     = [[1, 2]]
   \<and> uploads (snd (run (transfer (sample_init 2) (chunk_messages [[1], [2]] [0, 0, 1])) idle))
     = [blob_of [Some [1], None]]
   \<and> uploads (snd (run (transfer (sample_init 2) (chunk_messages [[1], [2]] [0, 1]))
       (connected\<lparr>uploadInProgressId := Some 5\<rparr>)))
     = []"
  by (simp add: transfer_def deliveries_def chunk_messages_def sample_init_def idle_def
      connected_def handleInitUpload_def handleAudioChunk_def handleTransferComplete_def
      processPortUpload_def array_set_def blob_of_def blob_part_def Let_def eval_nat_numeral)

subsection \<open>Upload retries\<close>






lemma attempts_on_success [simp]: "attempts (on_success key) = 0" "waits (on_success key) = []"
  by (simp_all add: on_success_def)





lemma settled_state:
  "snd (snd (portUploadSettled st sid up u s)) = fst (uploadSettled s)"
  by (simp add: portUploadSettled_def uploadFromPortSession_def uploadSettled_def split: sum.splits)



subsection \<open>Bringing up the offscreen document\<close>

lemma close_flags:
  "\<not> isOffscreenInitialized (fst (closeOffscreenDocument d c s))
   \<and> \<not> offscreenCreated (fst (closeOffscreenDocument d c s))"
  by (simp add: closeOffscreenDocument_def Let_def)

lemma close_effects_indep:
  "snd (closeOffscreenDocument d c s) = snd (closeOffscreenDocument d c s')"
  by (simp add: closeOffscreenDocument_def Let_def)

lemma close_no_creation: "creations (snd (closeOffscreenDocument d c s)) = 0"
  by (simp add: closeOffscreenDocument_def Let_def)

lemma creations_append [simp]: "creations (a @ b) = creations a + creations b"
  by (induction a rule: creations.induct) simp_all

lemma attempt_result_iff:
  "fst (attempt_once e k s) = ReturnTrue \<longleftrightarrow> createError e = None \<and> documentReady e"
  "fst (attempt_once e k s) = Throw m \<longleftrightarrow>
     createError e = Some m \<and> \<not> str_includes m ''Only a single offscreen document'' \<and> k = 3"
  by (auto simp: attempt_once_def Let_def split: prod.splits option.splits)

text \<open>
  After an attempt the flag \<open>isOffscreenInitialized\<close> is set when the function saw the
  document ready, or when the message listener handled a ready broadcast meanwhile.
\<close>

lemma attempt_initialized:
  "isOffscreenInitialized (fst (snd (attempt_once e k s)))
     \<longleftrightarrow> fst (attempt_once e k s) = ReturnTrue \<or> readyHeard e"
  using close_flags [of "documentExists e" "closeThrows e" s]
  by (auto simp: attempt_once_def on_OFFSCREEN_DOCUMENT_READY_def Let_def
      split: prod.splits option.splits)

lemma attempt_trace_shape:
  "\<exists>rest. snd (snd (attempt_once e k s))
      = snd (closeOffscreenDocument (documentExists e) (closeThrows e) s)
        @ [Delay 1000, CreateDocument] @ rest
    \<and> (createError e = None \<longrightarrow> rest = [Delay 3000, ListenReady 5000, PingOffscreen 3000])"
  by (auto simp: attempt_once_def Let_def split: prod.splits option.splits)

lemma attempt_creations: "creations (snd (snd (attempt_once e k s))) = 1"
  using close_no_creation [of "documentExists e" "closeThrows e" s]
  by (auto simp: attempt_once_def Let_def split: prod.splits option.splits)

lemma attempt_trace_indep:
  "snd (snd (attempt_once e k s)) = snd (snd (attempt_once e k s'))"
  using close_effects_indep [of "documentExists e" "closeThrows e" s s']
  by (auto simp: attempt_once_def Let_def split: prod.splits option.splits)

lemma single_document_retries:
  "createError e = Some m \<Longrightarrow> str_includes m ''Only a single offscreen document'' \<Longrightarrow>
   fst (attempt_once e k s) = NextAttempt"
  by (auto simp: attempt_once_def Let_def split: prod.splits)

text \<open>The loop, written out for its three attempts.\<close>

lemma ensure_loop_4: "ensure_loop env 4 s tr = (Inr False, s, tr)"
  by (simp add: ensure_loop.simps)

lemma ensure_loop_step:
  "k \<le> 3 \<Longrightarrow> ensure_loop env k s tr =
     (case fst (attempt_once (env k) k s) of
        ReturnTrue \<Rightarrow> (Inr True, fst (snd (attempt_once (env k) k s)),
                       tr @ snd (snd (attempt_once (env k) k s)))
      | NextAttempt \<Rightarrow> ensure_loop env (k + 1) (fst (snd (attempt_once (env k) k s)))
                        (tr @ snd (snd (attempt_once (env k) k s)))
      | Throw message \<Rightarrow> (Inl (''Could not create offscreen document: '' @ message),
                          fst (snd (attempt_once (env k) k s)),
                          tr @ snd (snd (attempt_once (env k) k s))))"
  by (subst ensure_loop.simps) (simp split: prod.splits attempt_result.splits)

lemma ensure_loop_props:
  "1 \<le> k \<Longrightarrow> k \<le> 4 \<Longrightarrow>
   creations (snd (snd (ensure_loop env k s tr))) \<le> creations tr + (4 - k)
   \<and> (\<exists>n. k - 1 \<le> n \<and> n \<le> 3 \<and> (\<exists>ext. snd (snd (ensure_loop env k s tr)) = tr @ ext
        \<and> attempts_trace env n s = attempts_trace env (k - 1) s @ ext))"
proof (induction env k s tr rule: ensure_loop.induct)
  case (1 env attempt s trace)
  show ?case
  proof (cases "attempt \<le> 3")
    case False
    with "1.prems" have a: "attempt = 4" by simp
    show ?thesis unfolding a ensure_loop_4
      by (auto intro: exI [of _ 3])
  next
    case True
    let ?r = "attempt_once (env attempt) attempt s"
    note st = ensure_loop_step [OF True, of env s trace]
    have tri: "attempts_trace env attempt s' = attempts_trace env (attempt - 1) s' @ snd (snd ?r)" for s' :: "'a host_state_scheme"
      using True "1.prems" attempt_trace_indep [of "env attempt" attempt s' s]
      by (cases attempt) simp_all
    have tri_any: "attempts_trace env n s' = attempts_trace env n s''" for n and s' s'' :: "'a host_state_scheme"
      by (induction n) (simp_all add: attempt_trace_indep [of _ _ s' s''])
    show ?thesis
    proof (cases "fst ?r")
      case ReturnTrue
      have cr: "creations (snd (snd ?r)) = 1" by (rule attempt_creations)
      have res: "ensure_loop env attempt s trace = (Inr True, fst (snd ?r), trace @ snd (snd ?r))"
        using st ReturnTrue by simp
      show ?thesis unfolding res using True cr tri [of s]
        by (auto intro!: exI [of _ attempt])
    next
      case (Throw m)
      have cr: "creations (snd (snd ?r)) = 1" by (rule attempt_creations)
      have res: "ensure_loop env attempt s trace
          = (Inl (''Could not create offscreen document: '' @ m), fst (snd ?r), trace @ snd (snd ?r))"
        using st Throw by simp
      show ?thesis unfolding res using True cr tri [of s]
        by (auto intro!: exI [of _ attempt])
    next
      case NextAttempt
      obtain s' es where r: "?r = (NextAttempt, s', es)"
        using NextAttempt by (cases ?r) auto
      have cr: "creations es = 1" using attempt_creations [of "env attempt" attempt s] r by simp
      have res: "ensure_loop env attempt s trace = ensure_loop env (attempt + 1) s' (trace @ es)"
        using st r by simp
      have le: "attempt + 1 \<le> 4" using True by simp
      have ge: "1 \<le> attempt + 1" by simp
      note IH = "1.IH" [OF True r [symmetric] refl refl ge le]
      let ?R = "ensure_loop env (attempt + 1) s' (trace @ es)"
      from IH have c: "creations (snd (snd ?R)) \<le> creations (trace @ es) + (4 - (attempt + 1))"
        by blast
      from IH obtain n ext where n: "attempt \<le> n" "n \<le> 3"
          "snd (snd ?R) = (trace @ es) @ ext"
          "attempts_trace env n s' = attempts_trace env attempt s' @ ext"
        by auto
      have tr: "attempts_trace env n s = attempts_trace env (attempt - 1) s @ (es @ ext)"
        using n(4) tri [of s] r tri_any [of n s s'] tri_any [of attempt s s'] by simp
      show ?thesis unfolding res
      proof (intro conjI)
        show "creations (snd (snd ?R)) \<le> creations trace + (4 - attempt)"
          using c cr True by simp
        show "\<exists>n\<ge>attempt - 1. n \<le> 3 \<and> (\<exists>ext. snd (snd ?R) = trace @ ext
            \<and> attempts_trace env n s = attempts_trace env (attempt - 1) s @ ext)"
          using n tr by (intro exI [of _ n]) auto
      qed
    qed
  qed
qed

text \<open>
  What the loop returns from attempt \<open>k\<close> on: \<open>true\<close> exactly when one of the remaining
  attempts creates the document and sees it ready; otherwise the outcome is decided by the
  third attempt, after which the flag is as the message listener left it.
\<close>

lemma ensure_loop_result:
  "1 \<le> k \<Longrightarrow> k \<le> 3 \<Longrightarrow>
   (fst (ensure_loop env k s tr) = Inr True
      \<longleftrightarrow> (\<exists>j. k \<le> j \<and> j \<le> 3 \<and> createError (env j) = None \<and> documentReady (env j)))
   \<and> (fst (ensure_loop env k s tr) \<noteq> Inr True \<longrightarrow>
        fst (ensure_loop env k s tr)
          = (case createError (env 3) of
               None \<Rightarrow> Inr False
             | Some m \<Rightarrow> if str_includes m ''Only a single offscreen document'' then Inr False
                         else Inl (''Could not create offscreen document: '' @ m))
        \<and> isOffscreenInitialized (fst (snd (ensure_loop env k s tr))) = readyHeard (env 3))"
proof (induction env k s tr rule: ensure_loop.induct)
  case (1 env attempt s trace)
  have le3: "attempt \<le> 3" using "1.prems" by simp
  let ?r = "attempt_once (env attempt) attempt s"
  let ?ok = "\<lambda>j. createError (env j) = None \<and> documentReady (env j)"
  note st = ensure_loop_step [OF le3, of env s trace]
  show ?case
  proof (cases "fst ?r")
    case ReturnTrue
    then have ok: "?ok attempt" by (simp add: attempt_result_iff)
    have res: "fst (ensure_loop env attempt s trace) = Inr True"
      using st ReturnTrue by simp
    have "\<exists>j. attempt \<le> j \<and> j \<le> 3 \<and> ?ok j"
      using ok le3 by (intro exI [of _ attempt]) simp
    with res show ?thesis by simp
  next
    case (Throw m)
    then have th: "createError (env attempt) = Some m"
        "\<not> str_includes m ''Only a single offscreen document''" "attempt = 3"
      using attempt_result_iff(2) [of "env attempt" attempt s m] by blast+
    have res: "ensure_loop env attempt s trace
        = (Inl (''Could not create offscreen document: '' @ m), fst (snd ?r), trace @ snd (snd ?r))"
      using st Throw by simp
    have fl: "isOffscreenInitialized (fst (snd ?r)) = readyHeard (env attempt)"
      using attempt_initialized [of "env attempt" attempt s] Throw by simp
    have no: "\<not> (\<exists>j. attempt \<le> j \<and> j \<le> 3 \<and> ?ok j)"
      using th by auto
    show ?thesis unfolding res using no fl th by simp
  next
    case NextAttempt
    obtain s' es where r: "?r = (NextAttempt, s', es)"
      using NextAttempt by (cases ?r) auto
    have res: "ensure_loop env attempt s trace = ensure_loop env (attempt + 1) s' (trace @ es)"
      using st r by simp
    have nok: "\<not> ?ok attempt"
      using attempt_result_iff(1) [of "env attempt" attempt s] NextAttempt by simp
    have nth: "\<And>m. \<not> (createError (env attempt) = Some m
        \<and> \<not> str_includes m ''Only a single offscreen document'' \<and> attempt = 3)"
      using attempt_result_iff(2) [of "env attempt" attempt s] NextAttempt by simp
    have fl: "isOffscreenInitialized s' = readyHeard (env attempt)"
      using attempt_initialized [of "env attempt" attempt s] r by simp
    show ?thesis
    proof (cases "attempt = 3")
      case True
      have r4: "ensure_loop env attempt s trace = (Inr False, s', trace @ es)"
        unfolding res using True by (simp add: ensure_loop_4)
      have no: "\<not> (\<exists>j. attempt \<le> j \<and> j \<le> 3 \<and> ?ok j)"
        using nok True by auto
      have out: "(case createError (env 3) of
               None \<Rightarrow> Inr False
             | Some m \<Rightarrow> if str_includes m ''Only a single offscreen document'' then Inr False
                         else Inl (''Could not create offscreen document: '' @ m)) = Inr False"
        using nth True by (auto split: option.splits)
      show ?thesis unfolding r4 using no out fl True by simp
    next
      case False
      then have le: "attempt + 1 \<le> 3" using le3 by simp
      have ge: "1 \<le> attempt + 1" by simp
      note IH = "1.IH" [OF le3 r [symmetric] refl refl ge le]
      have ex: "(\<exists>j. attempt \<le> j \<and> j \<le> 3 \<and> ?ok j) \<longleftrightarrow> (\<exists>j. attempt + 1 \<le> j \<and> j \<le> 3 \<and> ?ok j)"
      proof
        assume "\<exists>j. attempt \<le> j \<and> j \<le> 3 \<and> ?ok j"
        then obtain j where j: "attempt \<le> j" "j \<le> 3" "?ok j" by blast
        with nok have "j \<noteq> attempt" by auto
        with j show "\<exists>j. attempt + 1 \<le> j \<and> j \<le> 3 \<and> ?ok j"
          by (intro exI [of _ j]) simp
      next
        assume "\<exists>j. attempt + 1 \<le> j \<and> j \<le> 3 \<and> ?ok j"
        then obtain j where j: "attempt + 1 \<le> j" "j \<le> 3" "?ok j" by blast
        then show "\<exists>j. attempt \<le> j \<and> j \<le> 3 \<and> ?ok j"
          by (intro exI [of _ j]) simp
      qed
      show ?thesis unfolding res ex by (rule IH)
    qed
  qed
qed

lemma race_bounds:
  "fst (readyPromise r) \<le> 5000 \<and> fst (pingPromise p) \<le> 3000
   \<and> fst (promise_race (readyPromise r) (pingPromise p)) \<le> 3000"
  by (auto simp: readyPromise_def pingPromise_def promise_race_def split: option.splits)

text \<open>
  The race is won by a ready broadcast that arrives no later than the ping settles, or by
  a pong that arrives within 3000 ms and before the listener settles; a ping that settles
  first without a pong decides the race as well.
\<close>

lemma documentReady_iff:
  "documentReady e \<longleftrightarrow>
     (\<exists>t. readyAfter e = Some t \<and> t \<le> fst (pingPromise (pingAfter e)))
     \<or> (\<exists>t. pingAfter e = Some (t, True) \<and> t < 3000 \<and> t < fst (readyPromise (readyAfter e)))"
  by (auto simp: documentReady_def readyPromise_def pingPromise_def promise_race_def
      split: option.splits if_splits)

lemma single_document_trace:
  "createError e = Some m \<Longrightarrow> str_includes m ''Only a single offscreen document'' \<Longrightarrow>
   \<exists>pre. snd (snd (attempt_once e k s)) = pre @ [CreateDocument, CloseDocument, Delay 2000]"
  by (auto simp: attempt_once_def Let_def split: prod.splits)

text \<open>
  C7. \<open>ensureOffscreenDocument\<close> calls \<open>createDocument\<close> at most three times; its
  effects are those of the attempts 1 to \<open>n\<close> for some \<open>n \<le> 3\<close>, and every attempt
  first runs \<open>closeOffscreenDocument\<close>, waits 1000 ms and then creates the document;
  after a successful creation it waits for the ready broadcast (at most 5000 ms) and for
  the ping response (at most 3000 ms), and takes the document as ready exactly when the
  broadcast arrives no later than the ping settles, or a pong arrives within 3000 ms and
  before the broadcast; an attempt returns \<open>true\<close> exactly when the creation succeeds and
  the document is taken as ready; an "Only a single offscreen document" error is followed
  by a forced close, a wait of 2000 ms and the next attempt, never by a throw; the
  function returns \<open>true\<close> exactly when one of the three attempts creates the document
  and takes it as ready; and otherwise it returns \<open>false\<close>, or throws "Could not create
  offscreen document: ..." when the third creation fails with another error. The function
  itself then leaves \<open>isOffscreenInitialized\<close> false: after a failure the flag is set only
  if the message listener handled a ready broadcast during the third attempt.
\<close>

theorem C7_ensureOffscreenDocument_bounded:
  "creations (snd (snd (ensureOffscreenDocument env s))) \<le> 3
   \<and> (\<exists>n \<le> 3. snd (snd (ensureOffscreenDocument env s)) = attempts_trace env n s)
   \<and> (\<exists>rest. snd (snd (attempt_once e k s))
          = snd (closeOffscreenDocument (documentExists e) (closeThrows e) s)
            @ [Delay 1000, CreateDocument] @ rest
        \<and> (createError e = None \<longrightarrow> rest = [Delay 3000, ListenReady 5000, PingOffscreen 3000]))
   \<and> fst (readyPromise (readyAfter e)) \<le> 5000 \<and> fst (pingPromise (pingAfter e)) \<le> 3000
   \<and> (documentReady e \<longleftrightarrow>
        (\<exists>t. readyAfter e = Some t \<and> t \<le> fst (pingPromise (pingAfter e)))
        \<or> (\<exists>t. pingAfter e = Some (t, True) \<and> t < 3000 \<and> t < fst (readyPromise (readyAfter e))))
   \<and> (fst (attempt_once e k s) = ReturnTrue \<longleftrightarrow> createError e = None \<and> documentReady e)
   \<and> (createError e = Some m \<and> str_includes m ''Only a single offscreen document'' \<longrightarrow>
        fst (attempt_once e k s) = NextAttempt
        \<and> (\<exists>pre. snd (snd (attempt_once e k s)) = pre @ [CreateDocument, CloseDocument, Delay 2000]))
   \<and> (fst (ensureOffscreenDocument env s) = Inr True
        \<longleftrightarrow> (\<exists>j \<in> {1, 2, 3}. createError (env j) = None \<and> documentReady (env j)))
   \<and> (fst (ensureOffscreenDocument env s) \<noteq> Inr True \<longrightarrow>
        fst (ensureOffscreenDocument env s)
          = (case createError (env 3) of
               None \<Rightarrow> Inr False
             | Some m \<Rightarrow> if str_includes m ''Only a single offscreen document'' then Inr False
                         else Inl (''Could not create offscreen document: '' @ m))
        \<and> isOffscreenInitialized (fst (snd (ensureOffscreenDocument env s))) = readyHeard (env 3))"
proof -
  have one: "(1::nat) \<le> 1" "(1::nat) \<le> 4" "(1::nat) \<le> 3" by simp_all
  note P = ensure_loop_props [OF one(1,2), of env s "[]", folded ensureOffscreenDocument_def]
  note R = ensure_loop_result [OF one(1,3), of env s "[]", folded ensureOffscreenDocument_def]
  from P have c: "creations (snd (snd (ensureOffscreenDocument env s))) \<le> 3" by simp
  from P have t: "\<exists>n \<le> 3. snd (snd (ensureOffscreenDocument env s)) = attempts_trace env n s"
    by auto
  have js: "(\<exists>j. 1 \<le> j \<and> j \<le> 3 \<and> createError (env j) = None \<and> documentReady (env j))
      \<longleftrightarrow> (\<exists>j \<in> {1, 2, 3}. createError (env j) = None \<and> documentReady (env j))"
  proof
    assume "\<exists>j. 1 \<le> j \<and> j \<le> 3 \<and> createError (env j) = None \<and> documentReady (env j)"
    then obtain j where j: "1 \<le> j" "j \<le> 3" "createError (env j) = None \<and> documentReady (env j)"
      by blast
    then have "j \<in> {1, 2, 3}" by auto
    with j(3) show "\<exists>j \<in> {1, 2, 3}. createError (env j) = None \<and> documentReady (env j)"
      by (rule_tac bexI)
  next
    assume "\<exists>j \<in> {1, 2, 3}. createError (env j) = None \<and> documentReady (env j)"
    then obtain j where j: "j \<in> {1, 2, 3}" "createError (env j) = None \<and> documentReady (env j)"
      by blast
    then have "1 \<le> j \<and> j \<le> 3" by auto
    with j(2) show "\<exists>j. 1 \<le> j \<and> j \<le> 3 \<and> createError (env j) = None \<and> documentReady (env j)"
      by (intro exI [of _ j]) simp
  qed
  have r: "fst (ensureOffscreenDocument env s) = Inr True
        \<longleftrightarrow> (\<exists>j \<in> {1, 2, 3}. createError (env j) = None \<and> documentReady (env j))"
    using conjunct1 [OF R] unfolding js .
  have f: "fst (ensureOffscreenDocument env s) \<noteq> Inr True \<longrightarrow>
        fst (ensureOffscreenDocument env s)
          = (case createError (env 3) of
               None \<Rightarrow> Inr False
             | Some m \<Rightarrow> if str_includes m ''Only a single offscreen document'' then Inr False
                         else Inl (''Could not create offscreen document: '' @ m))
        \<and> isOffscreenInitialized (fst (snd (ensureOffscreenDocument env s))) = readyHeard (env 3)"
    by (rule conjunct2 [OF R])
  have sh: "\<exists>rest. snd (snd (attempt_once e k s))
          = snd (closeOffscreenDocument (documentExists e) (closeThrows e) s)
            @ [Delay 1000, CreateDocument] @ rest
        \<and> (createError e = None \<longrightarrow> rest = [Delay 3000, ListenReady 5000, PingOffscreen 3000])"
    by (rule attempt_trace_shape)
  have sd: "createError e = Some m \<and> str_includes m ''Only a single offscreen document'' \<longrightarrow>
        fst (attempt_once e k s) = NextAttempt
        \<and> (\<exists>pre. snd (snd (attempt_once e k s)) = pre @ [CreateDocument, CloseDocument, Delay 2000])"
    using single_document_retries [of e m k s] single_document_trace [of e m k s]
    by (intro impI conjI) (elim conjE, assumption)+
  have rb1: "fst (readyPromise (readyAfter e)) \<le> 5000"
    and rb2: "fst (pingPromise (pingAfter e)) \<le> 3000"
    using race_bounds [of "readyAfter e" "pingAfter e"] by simp_all
  have dr: "documentReady e \<longleftrightarrow>
        (\<exists>t. readyAfter e = Some t \<and> t \<le> fst (pingPromise (pingAfter e)))
        \<or> (\<exists>t. pingAfter e = Some (t, True) \<and> t < 3000 \<and> t < fst (readyPromise (readyAfter e)))"
    by (rule documentReady_iff)
  have at: "fst (attempt_once e k s) = ReturnTrue \<longleftrightarrow> createError e = None \<and> documentReady e"
    by (rule attempt_result_iff(1))
  show ?thesis by (intro conjI) (rule c t sh rb1 rb2 dr at sd r f)+
qed

text \<open>
  A document that answers the ping of the second attempt; a document whose broadcasts reach
  only the message listener, so that the function returns \<open>false\<close> with the flag set; a
  document that never answers; a browser that always reports a second document; and a
  document whose broadcast wins the race against a ping without pong.
\<close>

theorem C7_witness:
  "ensureOffscreenDocument ready_on_second no_host
     = (Inr True, \<lparr>offscreenCreated = True, isOffscreenInitialized = True\<rparr>,
        concat (replicate 2 [GetContexts, Delay 1000, CreateDocument, Delay 3000,
          ListenReady 5000, PingOffscreen 3000]))
   \<and> ensureOffscreenDocument (\<lambda>k. heard_too_early) no_host
     = (Inr False, \<lparr>offscreenCreated = True, isOffscreenInitialized = True\<rparr>,
        concat (replicate 3 [GetContexts, Delay 1000, CreateDocument, Delay 3000,
          ListenReady 5000, PingOffscreen 3000]))
   \<and> ensureOffscreenDocument (\<lambda>k. never_ready) no_host
     = (Inr False, \<lparr>offscreenCreated = True, isOffscreenInitialized = False\<rparr>,
        concat (replicate 3 [GetContexts, Delay 1000, CreateDocument, Delay 3000,
          ListenReady 5000, PingOffscreen 3000]))
   \<and> ensureOffscreenDocument (\<lambda>k. single_document) no_host
     = (Inr False, no_host,
        concat (replicate 3 [GetContexts, StopMessage, Delay 500, CloseDocument, Delay 1000,
          Delay 1000, CreateDocument, CloseDocument, Delay 2000]))
   \<and> fst (attempt_once single_document 3 no_host) = NextAttempt
   \<and> documentReady answers_ping \<and> documentReady broadcasts_ready \<and> \<not> documentReady never_ready
   \<and> fst (ensureOffscreenDocument (\<lambda>k. broadcasts_ready) no_host) = Inr True"
proof -
  have ap: "documentReady answers_ping"
    by (simp add: answers_ping_def documentReady_def readyPromise_def pingPromise_def
        promise_race_def)
  have br: "documentReady broadcasts_ready"
    by (simp add: broadcasts_ready_def documentReady_def readyPromise_def pingPromise_def
        promise_race_def)
  have nr: "\<not> documentReady never_ready"
    by (simp add: never_ready_def documentReady_def readyPromise_def pingPromise_def
        promise_race_def)
  have he: "\<not> documentReady heard_too_early"
    by (simp add: heard_too_early_def documentReady_def readyPromise_def pingPromise_def
        promise_race_def)
  have two: "\<exists>j \<in> {1, 2, 3 :: nat}. createError (ready_on_second j) = None
      \<and> documentReady (ready_on_second j)"
    using ap by (simp add: ready_on_second_def answers_ping_def)
  have bro: "\<exists>j \<in> {1, 2, 3 :: nat}. createError ((\<lambda>k. broadcasts_ready) j) = None
      \<and> documentReady ((\<lambda>k. broadcasts_ready) j)"
    using br by (intro bexI [of _ 1]) (simp_all add: broadcasts_ready_def)
  have none: "\<not> (\<exists>j \<in> {1, 2, 3 :: nat}. createError ((\<lambda>k. heard_too_early) j) = None
      \<and> documentReady ((\<lambda>k. heard_too_early) j))"
    using he by simp
  have sd: "createError single_document = Some ''Only a single offscreen document may be created.''
      \<and> str_includes ''Only a single offscreen document may be created.''
           ''Only a single offscreen document''"
  proof
    show "createError single_document = Some ''Only a single offscreen document may be created.''"
      by (simp add: single_document_def)
    show "str_includes ''Only a single offscreen document may be created.''
           ''Only a single offscreen document''"
      by code_simp
  qed
  note T1 = C7_ensureOffscreenDocument_bounded [of ready_on_second no_host never_ready 1 "''x''"]
  note T2 = C7_ensureOffscreenDocument_bounded [of "\<lambda>k. heard_too_early" no_host never_ready 1 "''x''"]
  note T3 = C7_ensureOffscreenDocument_bounded [of "\<lambda>k. single_document" no_host single_document 3
      "''Only a single offscreen document may be created.''"]
  note T4 = C7_ensureOffscreenDocument_bounded [of "\<lambda>k. broadcasts_ready" no_host never_ready 1 "''x''"]
  from T1 two have a: "fst (ensureOffscreenDocument ready_on_second no_host) = Inr True"
    by blast
  from T4 bro have a4: "fst (ensureOffscreenDocument (\<lambda>k. broadcasts_ready) no_host) = Inr True"
    by blast
  from T2 none have n2: "fst (ensureOffscreenDocument (\<lambda>k. heard_too_early) no_host) \<noteq> Inr True"
    by blast
  from T2 n2 have fl: "isOffscreenInitialized (fst (snd (ensureOffscreenDocument (\<lambda>k. heard_too_early) no_host)))
      = readyHeard heard_too_early" by blast
  from T3 sd have b: "fst (attempt_once single_document 3 no_host) = NextAttempt" by blast
  have c1: "ensureOffscreenDocument ready_on_second no_host
     = (Inr True, \<lparr>offscreenCreated = True, isOffscreenInitialized = True\<rparr>,
        concat (replicate 2 [GetContexts, Delay 1000, CreateDocument, Delay 3000,
          ListenReady 5000, PingOffscreen 3000]))"
    by (simp add: ensureOffscreenDocument_def ensure_loop.simps attempt_once_def
        closeOffscreenDocument_def on_OFFSCREEN_DOCUMENT_READY_def ready_on_second_def
        never_ready_def answers_ping_def no_host_def documentReady_def readyPromise_def
        pingPromise_def promise_race_def Let_def eval_nat_numeral)
  have c2: "ensureOffscreenDocument (\<lambda>k. heard_too_early) no_host
     = (Inr False, \<lparr>offscreenCreated = True, isOffscreenInitialized = True\<rparr>,
        concat (replicate 3 [GetContexts, Delay 1000, CreateDocument, Delay 3000,
          ListenReady 5000, PingOffscreen 3000]))"
    by (simp add: ensureOffscreenDocument_def ensure_loop.simps attempt_once_def
        closeOffscreenDocument_def on_OFFSCREEN_DOCUMENT_READY_def heard_too_early_def
        no_host_def documentReady_def readyPromise_def
        pingPromise_def promise_race_def Let_def eval_nat_numeral)
  have c: "ensureOffscreenDocument (\<lambda>k. never_ready) no_host
     = (Inr False, \<lparr>offscreenCreated = True, isOffscreenInitialized = False\<rparr>,
        concat (replicate 3 [GetContexts, Delay 1000, CreateDocument, Delay 3000,
          ListenReady 5000, PingOffscreen 3000]))"
    by (simp add: ensureOffscreenDocument_def ensure_loop.simps attempt_once_def
        closeOffscreenDocument_def never_ready_def no_host_def documentReady_def readyPromise_def
        pingPromise_def promise_race_def Let_def eval_nat_numeral)
  have d: "ensureOffscreenDocument (\<lambda>k. single_document) no_host
     = (Inr False, no_host,
        concat (replicate 3 [GetContexts, StopMessage, Delay 500, CloseDocument, Delay 1000,
          Delay 1000, CreateDocument, CloseDocument, Delay 2000]))"
    using sd
    by (simp add: ensureOffscreenDocument_def ensure_loop.simps attempt_once_def
        closeOffscreenDocument_def single_document_def no_host_def Let_def eval_nat_numeral)
  show ?thesis by (intro conjI) (rule c1 c2 c d b ap br nr a4)+
qed

subsection \<open>Stopping when nothing is recording\<close>


lemma storage_set_other:
  "storage_set [(k, v)] m k' = (if k' = k then Some v else m k')"
  by (simp add: storage_set_def)













subsection \<open>Concurrent start requests\<close>

text \<open>
  While \<open>currentRecordingTask\<close> is set, a further \<open>START_RECORDING\<close> starts nothing and
  waits for the pending promise; when the sequence ends, every waiting request receives
  the response of its outcome.
\<close>

lemma start_while_pending:
  assumes "currentRecordingTask s = Some task"
  shows "start_step (START_RECORDING request) s = s\<lparr>waiting := waiting s @ [(request, task)]\<rparr>"
  using assms by simp

lemma waiters_same_outcome:
  assumes "(task, InSequence) \<in> set (running s)" "(request, task) \<in> set (waiting s)"
  shows "(request, response_of outcome) \<in> set (responses (start_step (SequenceEnds task outcome) s))"
  using assms by (auto simp: image_iff)

text \<open>
  C4. The claim that at most one start sequence is in flight at any time does not hold of
  the code: \<open>STOP_RECORDING\<close> clears \<open>currentRecordingTask\<close>, and \<open>recordingLock\<close> is
  set only after the first suspension of \<open>handleStartRecording\<close>. With the messages
  start, stop, start handled before the first call resumes, both calls pass the lock check
  and both run the start sequence; each request is then answered with the outcome of its
  own sequence.
\<close>

theorem C4_two_start_sequences_in_flight:
  "running (start_run [START_RECORDING 1, STOP_RECORDING, START_RECORDING 2] start_initial)
     = [(0, AwaitingLockStore), (1, AwaitingLockStore)]
   \<and> running (start_run [START_RECORDING 1, STOP_RECORDING, START_RECORDING 2,
                         LockStored 0, LockStored 1] start_initial)
     = [(0, InSequence), (1, InSequence)]
   \<and> responses (start_run [START_RECORDING 1, STOP_RECORDING, START_RECORDING 2,
                         LockStored 0, LockStored 1, SequenceEnds 0 Started,
                         SequenceEnds 1 (StartFailed ''Offscreen error'')] start_initial)
     = [(1, StartedResponse), (2, ErrorResponse ''Offscreen error'')]"
  by (simp add: start_run_def start_initial_def response_of_def)

subsection \<open>Replayed export requests\<close>

text \<open>
  Had the two variables outlived the invocation, the replay would have been rejected.
\<close>

lemma export_guard_with_kept_variables:
  "export_branch (fst (export_branch (False, []) sample_export)) sample_export
     = ((True, [''export-1'']), ExportResponse False ''Request already processed'')"
  by (simp add: export_branch_def sample_export_def truthy_def str_of_def keep_last_20_def)

text \<open>
  C2. The claim that a replayed \<open>EXPORT_TO_ONENOTE\<close> request is rejected does not hold
  of the code: the same request, delivered twice, reaches the OneNote API both times.
\<close>

theorem C2_replayed_export_runs_again:
  "map onMessage_EXPORT_TO_ONENOTE [sample_export, sample_export]
     = [FetchNotebooks, FetchNotebooks]"
  by (simp add: onMessage_EXPORT_TO_ONENOTE_def export_branch_def sample_export_def
      truthy_def str_of_def keep_last_20_def)

end
